theory Spec2Isabelle
  imports Main "HOL-Library.Word" "HOL-Library.Sublist"
begin

section \<open>JavaScript strings and values\<close>

text \<open>
  A JavaScript string is a sequence of UTF-16 code units. The client script tells
  characters apart only by code unit (\<open>indexOf\<close>, \<open>trim\<close>, the regular expressions
  of \<open>formatText\<close> without the \<open>u\<close> flag), so a string is modelled as a list of
  16-bit words. \<open>lit\<close> embeds an ASCII literal of the source.
\<close>

type_synonym cu = "16 word"
type_synonym jsstring = "cu list"

definition lit :: "string \<Rightarrow> jsstring" where
  "lit s = map of_char s"

text \<open>
  The primitive values the program handles: strings, \<open>null\<close> (the literal end marker
  of the last section), \<open>undefined\<close> (a property an object does not have) and
  booleans. A JSON body is a primitive value or a plain object, an object being the
  list of its properties in the order they were written.
\<close>

datatype jsval =
    JUndefined
  | JNull
  | JBool bool
  | JString jsstring

datatype json =
    JVal jsval
  | JObject "(string \<times> json) list"

text \<open>
  A thrown TypeError: the only exception the client functions raise, and the one
  \<open>fs.mkdirSync\<close> throws on the server.
\<close>

datatype js_error = TypeError

text \<open>
  \<open>if (v)\<close> and \<open>!v\<close>: \<open>null\<close>, \<open>undefined\<close>, \<open>false\<close> and the empty string are
  falsy.
\<close>

fun truthy :: "jsval \<Rightarrow> bool" where
  "truthy JUndefined = False"
| "truthy JNull = False"
| "truthy (JBool b) = b"
| "truthy (JString s) = (s \<noteq> [])"

text \<open>The string a primitive value is coerced to when it is used as a search string.\<close>

fun toString :: "jsval \<Rightarrow> jsstring" where
  "toString JUndefined = lit ''undefined''"
| "toString JNull = lit ''null''"
| "toString (JBool b) = (if b then lit ''true'' else lit ''false'')"
| "toString (JString s) = s"

subsection \<open>Character classes of ECMAScript\<close>

definition NL :: cu where "NL = 0x0A"
definition SP :: cu where "SP = 0x20"
definition DASH :: cu where "DASH = 0x2D"
definition STAR :: cu where "STAR = 0x2A"

text \<open>LineTerminator: LF, CR, LS, PS.\<close>

definition isLineTerminator :: "cu \<Rightarrow> bool" where
  "isLineTerminator c \<longleftrightarrow> c = 0x0A \<or> c = 0x0D \<or> c = 0x2028 \<or> c = 0x2029"

text \<open>WhiteSpace: TAB, VT, FF, ZWNBSP and the space separators (category Zs).\<close>

definition isWhiteSpace :: "cu \<Rightarrow> bool" where
  "isWhiteSpace c \<longleftrightarrow>
     c = 0x09 \<or> c = 0x0B \<or> c = 0x0C \<or> c = 0x20 \<or> c = 0xA0 \<or> c = 0x1680 \<or>
     (0x2000 \<le> c \<and> c \<le> 0x200A) \<or> c = 0x202F \<or> c = 0x205F \<or> c = 0x3000 \<or>
     c = 0xFEFF"

text \<open>\<open>String.prototype.trim\<close> strips WhiteSpace and LineTerminator code units.\<close>

definition trimmable :: "cu \<Rightarrow> bool" where
  "trimmable c \<longleftrightarrow> isWhiteSpace c \<or> isLineTerminator c"

definition trim :: "jsstring \<Rightarrow> jsstring" where
  "trim s = rev (dropWhile trimmable (rev (dropWhile trimmable s)))"

subsection \<open>\<open>indexOf\<close> and \<open>substring\<close>\<close>

text \<open>
  \<open>text.indexOf(search, position)\<close>: the position is clamped to the length of the
  text, then the candidates \<open>start \<le> i \<le> len - searchLen\<close> are tried in ascending
  order. \<open>None\<close> stands for the result \<open>-1\<close>.
\<close>

definition indexOfFrom :: "jsstring \<Rightarrow> jsstring \<Rightarrow> nat \<Rightarrow> nat option" where
  "indexOfFrom text search position =
     (let len = length text;
          start = min position len;
          searchLen = length search
      in if len < searchLen then None
         else find (\<lambda>i. take searchLen (drop i text) = search)
                [start ..< Suc (len - searchLen)])"

definition indexOf :: "jsstring \<Rightarrow> jsstring \<Rightarrow> nat option" where
  "indexOf text search = indexOfFrom text search 0"

text \<open>
  \<open>text.substring(start, end)\<close>: both arguments are clamped to the length and
  swapped when out of order.
\<close>

definition substring :: "jsstring \<Rightarrow> nat \<Rightarrow> nat \<Rightarrow> jsstring" where
  "substring text start end' =
     (let len = length text;
          finalStart = min start len;
          finalEnd = min end' len;
          from = min finalStart finalEnd;
          to = max finalStart finalEnd
      in take (to - from) (drop from text))"

section \<open>The section extractor\<close>

definition sentinel :: jsstring where
  "sentinel = lit ''No information found.''"

text \<open>
  \<open>extractSection(text, startMarker, endMarker)\<close>. The start marker is always a
  string literal of the caller. \<open>text.indexOf\<close> throws a TypeError when \<open>text\<close> is
  not a string: \<open>null\<close> and \<open>undefined\<close> have no properties, a boolean has no
  \<open>indexOf\<close>.
\<close>

definition extractSection :: "jsval \<Rightarrow> jsstring \<Rightarrow> jsval \<Rightarrow> js_error + jsstring" where
  "extractSection text startMarker endMarker =
     (case text of
        JString t \<Rightarrow>
          (case indexOf t startMarker of
             None \<Rightarrow> Inr sentinel
           | Some startIndex \<Rightarrow>
               (let contentStart = startIndex + length startMarker;
                    contentEnd =
                      (if truthy endMarker then
                         (case indexOfFrom t (toString endMarker) contentStart of
                            Some endIndex \<Rightarrow> endIndex
                          | None \<Rightarrow> length t)
                       else length t)
                in Inr (trim (substring t contentStart contentEnd))))
      | _ \<Rightarrow> Inl TypeError)"

section \<open>The text formatter\<close>

definition li_open :: jsstring where "li_open = lit ''<li>''"
definition li_close :: jsstring where "li_close = lit ''</li>''"
definition ul_open :: jsstring where "ul_open = lit ''<ul>''"
definition ul_close :: jsstring where "ul_close = lit ''</ul>''"
definition br_tag :: jsstring where "br_tag = lit ''<br>''"

text \<open>
  \<open>.replace(/^- (.*)$/gm, "<li>$1</li>")\<close> and the same with \<open>\* \<close>, for the bullet
  character \<open>b\<close>. The scan goes left to right; \<open>bol\<close> says that \<open>^\<close> holds at the
  current position (start of input, or the previous code unit is a line terminator).
  Where \<open>^\<close> holds and the bullet and a space follow, the greedy \<open>(.*)\<close> takes every
  code unit up to the next line terminator or the end of input, where \<open>$\<close> holds;
  the match is replaced and the scan goes on behind it. Anywhere else the code unit
  is copied.
\<close>

function replaceBullets :: "cu \<Rightarrow> bool \<Rightarrow> jsstring \<Rightarrow> jsstring" where
  "replaceBullets b bol [] = []"
| "replaceBullets b bol (c # cs) =
     (if bol \<and> c = b \<and> prefix [SP] cs then
        li_open @ takeWhile (\<lambda>x. \<not> isLineTerminator x) (tl cs) @ li_close @
        replaceBullets b False (dropWhile (\<lambda>x. \<not> isLineTerminator x) (tl cs))
      else c # replaceBullets b (isLineTerminator c) cs)"
  by pat_completeness auto
termination
proof (relation "measure (\<lambda>(b, bol, t). length t)")
  fix b :: cu and bol :: bool and c :: cu and cs :: jsstring
  have "length (dropWhile (\<lambda>x. \<not> isLineTerminator x) (tl cs)) \<le> length (tl cs)"
    by (rule length_dropWhile_le)
  then show "((b, False, dropWhile (\<lambda>x. \<not> isLineTerminator x) (tl cs)), b, bol, c # cs)
      \<in> measure (\<lambda>(b, bol, t). length t)"
    by simp
qed simp_all

text \<open>
  \<open>/(<li>.*<\/li>)/s\<close> tried at the head of \<open>t\<close>: after \<open><li>\<close> the greedy \<open>.*\<close>
  (with the \<open>s\<close> flag it takes line terminators too) runs to the end of input and
  gives back one code unit at a time until \<open></li>\<close> follows, so the match ends
  behind the last \<open></li>\<close> that starts at offset 4 or later. The result is the
  length of the match.
\<close>

definition matchList :: "jsstring \<Rightarrow> nat option" where
  "matchList t =
     (if prefix li_open t then
        map_option (\<lambda>p. p + length li_close)
          (find (\<lambda>p. prefix li_close (drop p t)) (rev [length li_open ..< Suc (length t)]))
      else None)"

text \<open>
  \<open>.replace(/(<li>.*<\/li>)/gs, "<ul>$1</ul>")\<close>: the leftmost match is wrapped and
  the search resumes behind it.
\<close>

function replaceLists :: "jsstring \<Rightarrow> jsstring" where
  "replaceLists [] = []"
| "replaceLists (c # cs) =
     (case matchList (c # cs) of
        Some e \<Rightarrow> ul_open @ take e (c # cs) @ ul_close @ replaceLists (drop e (c # cs))
      | None \<Rightarrow> c # replaceLists cs)"
  by pat_completeness auto
termination
proof (relation "measure length")
  fix c :: cu and cs :: jsstring and e :: nat
  assume "matchList (c # cs) = Some e"
  then have "0 < e"
    by (auto simp: matchList_def li_close_def lit_def split: if_splits)
  then show "(drop e (c # cs), c # cs) \<in> measure length"
    by simp
qed simp_all

text \<open>\<open>.replace(/\n/g, "<br>")\<close>\<close>

definition replaceNewlines :: "jsstring \<Rightarrow> jsstring" where
  "replaceNewlines t = concat (map (\<lambda>c. if c = NL then br_tag else [c]) t)"

definition formatText :: "jsval \<Rightarrow> js_error + jsstring" where
  "formatText text =
     (if \<not> truthy text then Inr sentinel
      else case text of
        JString t \<Rightarrow>
          Inr (replaceNewlines (replaceLists
                 (replaceBullets STAR True (replaceBullets DASH True t))))
      | _ \<Rightarrow> Inl TypeError)"

section \<open>The result renderer\<close>

definition KEY_IMPORTANT_POINTS :: jsstring where
  "KEY_IMPORTANT_POINTS = lit ''KEY IMPORTANT POINTS''"
definition SUSPICIOUS_ELEMENTS :: jsstring where
  "SUSPICIOUS_ELEMENTS = lit ''SUSPICIOUS ELEMENTS''"
definition RISK_ASSESSMENT :: jsstring where
  "RISK_ASSESSMENT = lit ''RISK ASSESSMENT''"
definition RECOMMENDATIONS :: jsstring where
  "RECOMMENDATIONS = lit ''RECOMMENDATIONS''"

text \<open>
  \<open>obj.name\<close> on a plain object: the property, \<open>None\<close> standing for \<open>undefined\<close>.
  Of a key written twice the object keeps the last value.
\<close>

definition property :: "(string \<times> json) list \<Rightarrow> string \<Rightarrow> json option" where
  "property obj name = map_of (rev obj) name"

text \<open>\<open>formatText(extractSection(analysis, startMarker, endMarker))\<close>\<close>

definition renderSection :: "jsval \<Rightarrow> jsstring \<Rightarrow> jsval \<Rightarrow> js_error + jsstring" where
  "renderSection analysis startMarker endMarker =
     (case extractSection analysis startMarker endMarker of
        Inl err \<Rightarrow> Inl err
      | Inr content \<Rightarrow> formatText (JString content))"

text \<open>
  \<open>displayResults(analysisResult)\<close> fills a fixed HTML template. The display is
  modelled by what the template takes from the response: the four rendered sections,
  in the order of the template, and the \<open>fileName\<close> property of the footer (the
  footer's completion time comes from the clock and is left out). An exception in any
  interpolation leaves the function. When \<open>analysisResult.analysis\<close> is a plain object,
  the first interpolation calls an \<open>indexOf\<close> that is no function and throws.
\<close>

record display =
  keyPoints :: jsstring
  suspicious :: jsstring
  risk :: jsstring
  recommendations :: jsstring
  document :: "json option"

definition renderSections :: "jsval \<Rightarrow> json option \<Rightarrow> js_error + display" where
  "renderSections analysis fileName =
     (case renderSection analysis KEY_IMPORTANT_POINTS (JString SUSPICIOUS_ELEMENTS) of
        Inl err \<Rightarrow> Inl err
      | Inr s1 \<Rightarrow>
      (case renderSection analysis SUSPICIOUS_ELEMENTS (JString RISK_ASSESSMENT) of
        Inl err \<Rightarrow> Inl err
      | Inr s2 \<Rightarrow>
      (case renderSection analysis RISK_ASSESSMENT (JString RECOMMENDATIONS) of
        Inl err \<Rightarrow> Inl err
      | Inr s3 \<Rightarrow>
      (case renderSection analysis RECOMMENDATIONS JNull of
        Inl err \<Rightarrow> Inl err
      | Inr s4 \<Rightarrow>
          Inr \<lparr>keyPoints = s1, suspicious = s2, risk = s3, recommendations = s4,
               document = fileName\<rparr>))))"

definition displayResults :: "(string \<times> json) list \<Rightarrow> js_error + display" where
  "displayResults analysisResult =
     (case property analysisResult ''analysis'' of
        None \<Rightarrow> renderSections JUndefined (property analysisResult ''fileName'')
      | Some (JVal analysis) \<Rightarrow>
          renderSections analysis (property analysisResult ''fileName'')
      | Some (JObject ps) \<Rightarrow> Inl TypeError)"

section \<open>The server\<close>

text \<open>
  An error object of the server: a plain \<open>Error\<close> with its message, or a
  \<open>MulterError\<close> with its code and message.
\<close>

datatype error =
    Error jsstring
  | MulterError string jsstring

fun message :: "error \<Rightarrow> jsstring" where
  "message (Error m) = m"
| "message (MulterError code m) = m"

text \<open>
  The file part of the multipart form, as multer describes it in \<open>req.file\<close>
  (\<open>size_bytes\<close> is its \<open>size\<close>).
\<close>

record upload_file =
  originalname :: jsstring
  mimetype :: jsstring
  size_bytes :: nat
  path :: jsstring

text \<open>
  What the server takes from its platform: the environment variable, the functions of
  node's library (\<open>path.extname\<close>, \<open>toLowerCase\<close> with its Unicode tables,
  \<open>fs.readFileSync\<close>, the clock) and the generative-AI service. The service is given
  the fixed prompt, a MIME type and the bytes of the file (base64-encoded in transit);
  \<open>generateContent\<close> stands for the call followed by \<open>response.text()\<close>, either of
  which may fail.
\<close>

record env =
  GEMINI_API_KEY :: jsval
  extname :: "jsstring \<Rightarrow> jsstring"
  toLowerCase :: "jsstring \<Rightarrow> jsstring"
  readFileSync :: "jsstring \<Rightarrow> error + 8 word list"
  generateContent :: "jsstring \<Rightarrow> 8 word list \<Rightarrow> error + jsstring"
  now :: jsstring

type_synonym ai_call = "jsstring \<times> 8 word list"

record response =
  status :: nat
  body :: json

text \<open>
  What a request leaves behind: the responses sent (none when an exception that
  nothing catches ends the request), the calls made to the AI service and the
  temporary files handed to \<open>fs.unlink\<close>.
\<close>

record outcome =
  responses :: "response list"
  aiCalls :: "ai_call list"
  unlinked :: "jsstring list"

subsection \<open>The upload filter\<close>

definition fileSize :: nat where
  "fileSize = 10 * 1024 * 1024"

text \<open>\<open>/jpeg|jpg|png|pdf/.test(s)\<close>: one of the alternatives occurs in \<open>s\<close>.\<close>

definition allowedTypes :: "jsstring \<Rightarrow> bool" where
  "allowedTypes s \<longleftrightarrow>
     list_ex (\<lambda>alt. indexOf s alt \<noteq> None)
       [lit ''jpeg'', lit ''jpg'', lit ''png'', lit ''pdf'']"

text \<open>\<open>fileFilter\<close>: \<open>cb(null, true)\<close> is \<open>Inr True\<close>, \<open>cb(new Error(...))\<close> is \<open>Inl\<close>.\<close>

definition fileFilter :: "env \<Rightarrow> upload_file \<Rightarrow> error + bool" where
  "fileFilter env file =
     (let extname' = allowedTypes (toLowerCase env (extname env (originalname file)));
          mimetype' = allowedTypes (mimetype file)
      in if mimetype' \<and> extname' then Inr True
         else Inl (Error (lit ''Only PDF and image files are allowed!'')))"

text \<open>
  The \<open>destination\<close> callback of the disk storage (lines 25 to 31). Its \<open>uploadDir\<close> is
  not a directory name but a second Multer instance, and that is the only value the
  callback ever hands to \<open>fs\<close>. For a value that is no path \<open>fs.existsSync\<close> answers
  \<open>false\<close> and \<open>fs.mkdirSync\<close> throws a TypeError, so the callback throws before it
  reaches \<open>cb\<close>.
\<close>

datatype fs_arg = MulterInstance

fun existsSync :: "fs_arg \<Rightarrow> bool" where
  "existsSync MulterInstance = False"

fun mkdirSync :: "fs_arg \<Rightarrow> js_error + unit" where
  "mkdirSync MulterInstance = Inl TypeError"

definition destination :: "js_error + fs_arg" where
  "destination =
     (let uploadDir = MulterInstance in
      if \<not> existsSync uploadDir then
        (case mkdirSync uploadDir of
           Inl err \<Rightarrow> Inl err
         | Inr made \<Rightarrow> Inr uploadDir)
      else Inr uploadDir)"

text \<open>
  What the upload middleware does with a request: it calls \<open>next()\<close> with \<open>req.file\<close>
  set or left undefined, it calls \<open>next(err)\<close>, or an exception leaves one of the
  server's callbacks while multer reads the request; nothing catches that exception
  and the request gets no response.
\<close>

datatype upload_result =
    Next "upload_file option"
  | NextError error
  | Uncaught js_error

text \<open>
  \<open>upload.single('document')\<close>. The middleware is multer's; the model follows its
  documented contract for the options the server sets, and runs the server's own
  callbacks where multer calls them. Without a file part it calls \<open>next()\<close> and
  \<open>req.file\<close> stays undefined. With one, it asks \<open>fileFilter\<close> when the part begins,
  and passes the filter's error to \<open>next\<close>; a file the filter declines without an
  error is skipped. For an accepted file the storage engine first asks the
  \<open>destination\<close> callback where to put it. Only then is the file streamed, and once
  more than \<open>limits.fileSize\<close> bytes have arrived multer calls \<open>next\<close> with a
  \<open>MulterError\<close> of code \<open>LIMIT_FILE_SIZE\<close>; otherwise \<open>req.file\<close> is set, \<open>path\<close>
  being where the engine put the file.
\<close>

definition upload :: "env \<Rightarrow> upload_file option \<Rightarrow> upload_result" where
  "upload env part =
     (case part of
        None \<Rightarrow> Next None
      | Some file \<Rightarrow>
          (case fileFilter env file of
             Inl err \<Rightarrow> NextError err
           | Inr False \<Rightarrow> Next None
           | Inr True \<Rightarrow>
               (case destination of
                  Inl thrown \<Rightarrow> Uncaught thrown
                | Inr uploadDir \<Rightarrow>
                    if fileSize < size_bytes file
                    then NextError (MulterError ''LIMIT_FILE_SIZE'' (lit ''File too large''))
                    else Next (Some file))))"

subsection \<open>The analysis\<close>

definition getImageMimeType :: "jsstring \<Rightarrow> jsstring" where
  "getImageMimeType extension =
     (case map_of [(lit ''.jpg'', lit ''image/jpeg''),
                   (lit ''.jpeg'', lit ''image/jpeg''),
                   (lit ''.png'', lit ''image/png'')] extension of
        Some m \<Rightarrow> m
      | None \<Rightarrow> lit ''image/jpeg'')"

text \<open>The \<open>catch\<close> of \<open>analyzeLegalDocument\<close> wraps whatever was thrown.\<close>

definition analysisFailed :: "error \<Rightarrow> error" where
  "analysisFailed err = Error (lit ''Analysis failed: '' @ message err)"

text \<open>One call of the service and the object built from its answer.\<close>

definition generate ::
  "env \<Rightarrow> jsstring \<Rightarrow> 8 word list \<Rightarrow> jsstring \<Rightarrow> jsstring \<Rightarrow> (error + json) \<times> ai_call list" where
  "generate env mimeType fileBuffer originalName fileExtension =
     (case generateContent env mimeType fileBuffer of
        Inl err \<Rightarrow> (Inl (analysisFailed err), [(mimeType, fileBuffer)])
      | Inr analysis \<Rightarrow>
          (Inr (JObject [(''analysis'', JVal (JString analysis)),
                         (''fileName'', JVal (JString originalName)),
                         (''fileType'', JVal (JString fileExtension)),
                         (''timestamp'', JVal (JString (now env))),
                         (''success'', JVal (JBool True))]),
           [(mimeType, fileBuffer)]))"

definition analyzeLegalDocument ::
  "env \<Rightarrow> jsstring \<Rightarrow> jsstring \<Rightarrow> (error + json) \<times> ai_call list" where
  "analyzeLegalDocument env filePath originalName =
     (let fileExtension = toLowerCase env (extname env originalName) in
      case readFileSync env filePath of
        Inl err \<Rightarrow> (Inl (analysisFailed err), [])
      | Inr fileBuffer \<Rightarrow>
          if fileExtension = lit ''.pdf'' then
            generate env (lit ''application/pdf'') fileBuffer originalName fileExtension
          else if fileExtension \<in> set [lit ''.jpg'', lit ''.jpeg'', lit ''.png''] then
            generate env (getImageMimeType fileExtension) fileBuffer originalName
              fileExtension
          else (Inl (analysisFailed (Error (lit ''Unsupported file type''))), []))"

subsection \<open>The route and the error middleware\<close>

text \<open>\<open>{ success: false, error: ... }\<close>\<close>

definition failure :: "jsstring \<Rightarrow> json" where
  "failure msg =
     JObject [(''success'', JVal (JBool False)), (''error'', JVal (JString msg))]"

text \<open>\<open>error.message || 'Internal server error'\<close>\<close>

definition messageOrDefault :: "error \<Rightarrow> jsstring" where
  "messageOrDefault err =
     (if message err \<noteq> [] then message err else lit ''Internal server error'')"

text \<open>The handler of \<open>POST /api/analyze\<close>, given \<open>req.file\<close>.\<close>

definition analyzeRoute :: "env \<Rightarrow> upload_file option \<Rightarrow> outcome" where
  "analyzeRoute env file =
     (case file of
        None \<Rightarrow>
          \<lparr>responses = [\<lparr>status = 400, body = failure (lit ''No file uploaded'')\<rparr>],
           aiCalls = [], unlinked = []\<rparr>
      | Some f \<Rightarrow>
          if \<not> truthy (GEMINI_API_KEY env) then
            \<lparr>responses =
               [\<lparr>status = 500, body = failure (lit ''Gemini API key not configured'')\<rparr>],
             aiCalls = [], unlinked = []\<rparr>
          else
            (case analyzeLegalDocument env (path f) (originalname f) of
               (Inr analysis, calls) \<Rightarrow>
                 \<lparr>responses = [\<lparr>status = 200, body = analysis\<rparr>],
                  aiCalls = calls, unlinked = [path f]\<rparr>
             | (Inl err, calls) \<Rightarrow>
                 \<lparr>responses = [\<lparr>status = 500, body = failure (messageOrDefault err)\<rparr>],
                  aiCalls = calls, unlinked = [path f]\<rparr>))"

text \<open>The error-handling middleware.\<close>

definition errorMiddleware :: "error \<Rightarrow> outcome" where
  "errorMiddleware err =
     (case err of
        MulterError code msg \<Rightarrow>
          if code = ''LIMIT_FILE_SIZE'' then
            \<lparr>responses =
               [\<lparr>status = 400,
                 body = failure (lit ''File too large. Maximum size is 10MB.'')\<rparr>],
             aiCalls = [], unlinked = []\<rparr>
          else
            \<lparr>responses = [\<lparr>status = 500, body = failure (messageOrDefault err)\<rparr>],
             aiCalls = [], unlinked = []\<rparr>
      | Error msg \<Rightarrow>
          \<lparr>responses = [\<lparr>status = 500, body = failure (messageOrDefault err)\<rparr>],
           aiCalls = [], unlinked = []\<rparr>)"

text \<open>
  \<open>app.post('/api/analyze', upload.single('document'), handler)\<close>: an error passed
  to \<open>next\<close> by the upload middleware skips the handler and reaches the error
  middleware. After an uncaught exception neither runs.
\<close>

definition postAnalyze :: "env \<Rightarrow> upload_file option \<Rightarrow> outcome" where
  "postAnalyze env part =
     (case upload env part of
        Next file \<Rightarrow> analyzeRoute env file
      | NextError err \<Rightarrow> errorMiddleware err
      | Uncaught thrown \<Rightarrow> \<lparr>responses = [], aiCalls = [], unlinked = []\<rparr>)"

subsection \<open>An example environment\<close>

text \<open>
  A platform for the examples: a configured key, \<open>path.extname\<close> on the file names of the
  examples (which are in lower case already), a readable file and a service that
  answers. Then four uploads: a small PDF, a small PNG, a PDF of 11 MiB and an
  executable of 20 MiB.
\<close>

definition exampleEnv :: env where
  "exampleEnv =
     \<lparr>GEMINI_API_KEY = JString (lit ''secret''),
      extname = (\<lambda>name. case map_of [(lit ''lease.pdf'', lit ''.pdf''),
                                       (lit ''scan.png'', lit ''.png''),
                                       (lit ''big.pdf'', lit ''.pdf''),
                                       (lit ''big.exe'', lit ''.exe'')] name of
                            Some ext \<Rightarrow> ext | None \<Rightarrow> []),
      toLowerCase = (\<lambda>s. s),
      readFileSync = (\<lambda>p. Inr [0x25, 0x50, 0x44, 0x46]),
      generateContent = (\<lambda>mimeType fileBuffer. Inr (lit ''RISK ASSESSMENT: Low'')),
      now = lit ''2024-01-01T00:00:00.000Z''\<rparr>"

definition leasePdf :: upload_file where
  "leasePdf = \<lparr>originalname = lit ''lease.pdf'', mimetype = lit ''application/pdf'',
                size_bytes = 2048, path = lit ''uploads/document-1.pdf''\<rparr>"

definition scanPng :: upload_file where
  "scanPng = \<lparr>originalname = lit ''scan.png'', mimetype = lit ''image/png'',
               size_bytes = 4096, path = lit ''uploads/document-4.png''\<rparr>"

definition bigPdf :: upload_file where
  "bigPdf = \<lparr>originalname = lit ''big.pdf'', mimetype = lit ''application/pdf'',
              size_bytes = 11 * 1024 * 1024, path = lit ''uploads/document-2.pdf''\<rparr>"

definition bigExe :: upload_file where
  "bigExe = \<lparr>originalname = lit ''big.exe'', mimetype = lit ''application/octet-stream'',
              size_bytes = 20 * 1024 * 1024, path = lit ''uploads/document-3.exe''\<rparr>"

subsection \<open>Example texts\<close>

text \<open>
  An answer of the AI service in the format the prompt asks for, and a text with one
  character in front of the first marker.
\<close>

definition exampleAnalysis :: jsstring where
  "exampleAnalysis =
     lit ''KEY IMPORTANT POINTS:'' @ [NL] @ lit ''- Payment due in 30 days'' @ [NL] @
     lit ''SUSPICIOUS ELEMENTS:'' @ [NL] @ lit ''- None found'' @ [NL] @
     lit ''RISK ASSESSMENT:'' @ [NL] @ lit ''Low'' @ [NL] @
     lit ''RECOMMENDATIONS:'' @ [NL] @ lit ''- Review clause 4''"

definition prefacedAnalysis :: jsstring where
  "prefacedAnalysis =
     lit ''x'' @ KEY_IMPORTANT_POINTS @ lit ''a'' @ SUSPICIOUS_ELEMENTS @ lit ''b'' @
     RISK_ASSESSMENT @ lit ''c'' @ RECOMMENDATIONS @ lit ''d''"

section \<open>Notions of the specification\<close>

text \<open>
  The marker \<open>m\<close> occurs in \<open>t\<close> between \<open>pre\<close> and \<open>post\<close>, and nowhere further
  to the left.
\<close>

definition first_occurrence :: "jsstring \<Rightarrow> jsstring \<Rightarrow> jsstring \<Rightarrow> jsstring \<Rightarrow> bool" where
  "first_occurrence m t pre post \<longleftrightarrow>
     t = pre @ m @ post \<and> (\<forall>pre' post'. t = pre' @ m @ post' \<longrightarrow> length pre \<le> length pre')"

text \<open>
  \<open>s\<close> is \<open>raw\<close> without its leading and trailing whitespace: only whitespace was
  cut off, and \<open>s\<close> neither begins nor ends with whitespace.
\<close>

definition trimmed_of :: "jsstring \<Rightarrow> jsstring \<Rightarrow> bool" where
  "trimmed_of raw s \<longleftrightarrow>
     (\<exists>l r. raw = l @ s @ r \<and> list_all trimmable l \<and> list_all trimmable r) \<and>
     (s = [] \<or> \<not> trimmable (hd s) \<and> \<not> trimmable (last s))"

text \<open>The last occurrence of \<open>m\<close> in \<open>t\<close>, likewise.\<close>

definition last_occurrence :: "jsstring \<Rightarrow> jsstring \<Rightarrow> jsstring \<Rightarrow> jsstring \<Rightarrow> bool" where
  "last_occurrence m t pre post \<longleftrightarrow>
     t = pre @ m @ post \<and> (\<forall>pre' post'. t = pre' @ m @ post' \<longrightarrow> length pre' \<le> length pre)"

text \<open>A line: a stretch of text without a line terminator.\<close>

definition noTerminator :: "jsstring \<Rightarrow> bool" where
  "noTerminator l = list_all (\<lambda>x. \<not> isLineTerminator x) l"

text \<open>
  The first two replacements of \<open>formatText\<close> one after the other, and what they make of
  a line: the list item of a line that begins with \<open>- \<close> or \<open>* \<close> holds the rest of the
  line, any other line stays as it is. \<open>bulletItem\<close> is the same for one bullet
  character.
\<close>

definition bulletLines :: "jsstring \<Rightarrow> jsstring" where
  "bulletLines t = replaceBullets STAR True (replaceBullets DASH True t)"

definition bulleted :: "jsstring \<Rightarrow> bool" where
  "bulleted l \<longleftrightarrow> prefix (lit ''- '') l \<or> prefix (lit ''* '') l"

definition bulletItem :: "cu \<Rightarrow> jsstring \<Rightarrow> jsstring" where
  "bulletItem b l = (if prefix [b, SP] l then li_open @ drop 2 l @ li_close else l)"

definition listItem :: "jsstring \<Rightarrow> jsstring" where
  "listItem l =
     (if prefix (lit ''- '') l \<or> prefix (lit ''* '') l then li_open @ drop 2 l @ li_close
      else l)"

text \<open>
  Some line of \<open>t\<close> begins with the bullet \<open>b\<close> and a space: the text itself, or what
  follows one of the four line terminators.
\<close>

definition bulletedLine :: "cu \<Rightarrow> jsstring \<Rightarrow> bool" where
  "bulletedLine b t \<longleftrightarrow>
     prefix [b, SP] t \<or> list_ex (\<lambda>c. sublist [c, b, SP] t) [0x0A, 0x0D, 0x2028, 0x2029]"

section \<open>Substring search\<close>

lemma take_eq_iff_prefix: "take (length s) xs = s \<longleftrightarrow> prefix s xs"
  by (metis append_eq_conv_conj prefix_def take_is_prefix)

lemma prefix_drop_late:
  assumes "prefix s (drop i t)" "i \<le> length t"
  shows "length s \<le> length t" "i \<le> length t - length s"
proof -
  from assms(1) have "length s \<le> length t - i" using prefix_length_le by fastforce
  with assms(2) show "length s \<le> length t" "i \<le> length t - length s" by arith+
qed

lemma indexOfFrom_None_iff:
  "indexOfFrom t s p = None \<longleftrightarrow>
     (\<forall>i. min p (length t) \<le> i \<longrightarrow> i \<le> length t \<longrightarrow> \<not> prefix s (drop i t))"
proof (cases "length t < length s")
  case True
  then have "indexOfFrom t s p = None" by (simp add: indexOfFrom_def)
  moreover have "\<not> prefix s (drop i t)" if "i \<le> length t" for i
    using prefix_drop_late(1)[of s i t] that True by auto
  ultimately show ?thesis by simp
next
  case False
  then have eq: "indexOfFrom t s p =
      find (\<lambda>i. prefix s (drop i t)) [min p (length t) ..< Suc (length t - length s)]"
    by (simp add: indexOfFrom_def Let_def take_eq_iff_prefix del: upt_Suc)
  show ?thesis
  proof
    assume "indexOfFrom t s p = None"
    then have none: "\<forall>i. min p (length t) \<le> i \<and> i \<le> length t - length s \<longrightarrow> \<not> prefix s (drop i t)"
      by (auto simp: eq find_None_iff)
    show "\<forall>i. min p (length t) \<le> i \<longrightarrow> i \<le> length t \<longrightarrow> \<not> prefix s (drop i t)"
      using none prefix_drop_late(2) by blast
  next
    assume "\<forall>i. min p (length t) \<le> i \<longrightarrow> i \<le> length t \<longrightarrow> \<not> prefix s (drop i t)"
    then show "indexOfFrom t s p = None"
      by (auto simp: eq find_None_iff)
  qed
qed

lemma find_upt_Some_iff:
  "find P [a ..< b] = Some i \<longleftrightarrow> a \<le> i \<and> i < b \<and> P i \<and> (\<forall>j. a \<le> j \<longrightarrow> j < i \<longrightarrow> \<not> P j)"
proof (induction "b - a" arbitrary: a)
  case 0
  then show ?case by auto
next
  case (Suc n)
  then have ab: "a < b" and n: "n = b - Suc a" by arith+
  have step: "find P [a ..< b] = (if P a then Some a else find P [Suc a ..< b])"
    using ab by (simp add: upt_conv_Cons)
  show ?case
  proof (cases "P a")
    case True
    then show ?thesis using ab step
      by (auto simp: not_less)
  next
    case False
    have "(\<forall>j. a \<le> j \<longrightarrow> j < i \<longrightarrow> \<not> P j) \<longleftrightarrow> (\<forall>j. Suc a \<le> j \<longrightarrow> j < i \<longrightarrow> \<not> P j)"
      using False by (metis Suc_leD Suc_leI le_neq_implies_less)
    moreover have "a \<le> i \<and> P i \<longleftrightarrow> Suc a \<le> i \<and> P i"
      using False by (metis Suc_leD Suc_leI le_neq_implies_less)
    ultimately show ?thesis
      using False step Suc.hyps(1)[OF n] by auto
  qed
qed

lemma indexOfFrom_Some_iff:
  "indexOfFrom t s p = Some i \<longleftrightarrow>
     min p (length t) \<le> i \<and> i \<le> length t \<and> prefix s (drop i t) \<and>
     (\<forall>j. min p (length t) \<le> j \<longrightarrow> j < i \<longrightarrow> \<not> prefix s (drop j t))"
proof (cases "length t < length s")
  case True
  then have "indexOfFrom t s p = None" by (simp add: indexOfFrom_def)
  moreover have "\<not> prefix s (drop i t)" if "i \<le> length t"
    using prefix_drop_late(1)[of s i t] that True by auto
  ultimately show ?thesis by auto
next
  case False
  then have eq: "indexOfFrom t s p =
      find (\<lambda>i. prefix s (drop i t)) [min p (length t) ..< Suc (length t - length s)]"
    by (simp add: indexOfFrom_def Let_def take_eq_iff_prefix del: upt_Suc)
  show ?thesis
    unfolding eq find_upt_Some_iff
    using prefix_drop_late(2)[of s i t] by auto
qed

lemma prefix_drop_decomp:
  "i \<le> length t \<and> prefix m (drop i t) \<longleftrightarrow> (\<exists>pre post. t = pre @ m @ post \<and> length pre = i)"
proof
  assume "i \<le> length t \<and> prefix m (drop i t)"
  then obtain post where "drop i t = m @ post" and "i \<le> length t" by (auto simp: prefix_def)
  then have "t = take i t @ m @ post \<and> length (take i t) = i"
    by (metis append_take_drop_id length_take min.absorb2)
  then show "\<exists>pre post. t = pre @ m @ post \<and> length pre = i" by blast
next
  assume "\<exists>pre post. t = pre @ m @ post \<and> length pre = i"
  then show "i \<le> length t \<and> prefix m (drop i t)" by auto
qed

lemma first_occurrence_iff:
  "first_occurrence m t pre post \<longleftrightarrow>
     t = pre @ m @ post \<and> (\<forall>j<length pre. \<not> prefix m (drop j t))"
proof -
  have "(\<forall>pre' post'. t = pre' @ m @ post' \<longrightarrow> length pre \<le> length pre') \<longleftrightarrow>
        (\<forall>j<length pre. \<not> prefix m (drop j t))" if t: "t = pre @ m @ post"
  proof
    assume h: "\<forall>pre' post'. t = pre' @ m @ post' \<longrightarrow> length pre \<le> length pre'"
    show "\<forall>j<length pre. \<not> prefix m (drop j t)"
    proof (intro allI impI notI)
      fix j assume j: "j < length pre" and p: "prefix m (drop j t)"
      from j t have "j \<le> length t" by simp
      with p obtain pre' post' where "t = pre' @ m @ post'" "length pre' = j"
        using prefix_drop_decomp[of j t m] by blast
      with h j show False by fastforce
    qed
  next
    assume h: "\<forall>j<length pre. \<not> prefix m (drop j t)"
    show "\<forall>pre' post'. t = pre' @ m @ post' \<longrightarrow> length pre \<le> length pre'"
    proof (intro allI impI)
      fix pre' post' assume t': "t = pre' @ m @ post'"
      then have "prefix m (drop (length pre') t)" by simp
      with h show "length pre \<le> length pre'" by (meson not_less)
    qed
  qed
  then show ?thesis unfolding first_occurrence_def by blast
qed

lemma indexOf_None_iff: "indexOf t m = None \<longleftrightarrow> \<not> sublist m t"
proof -
  have "sublist m t \<longleftrightarrow> (\<exists>i. i \<le> length t \<and> prefix m (drop i t))"
    unfolding sublist_def using prefix_drop_decomp[of _ t m] by blast
  then show ?thesis
    unfolding indexOf_def indexOfFrom_None_iff by auto
qed

lemma indexOf_first_occurrence:
  "first_occurrence m t pre post \<Longrightarrow> indexOf t m = Some (length pre)"
  unfolding indexOf_def indexOfFrom_Some_iff first_occurrence_iff by auto

lemma indexOf_Some_first_occurrence:
  assumes "indexOf t m = Some i"
  shows "first_occurrence m t (take i t) (drop (i + length m) t)"
proof -
  from assms have i: "i \<le> length t" and p: "prefix m (drop i t)"
    and firsti: "\<forall>j<i. \<not> prefix m (drop j t)"
    unfolding indexOf_def indexOfFrom_Some_iff by auto
  from p obtain post where post: "drop i t = m @ post" by (auto simp: prefix_def)
  then have "drop (i + length m) t = post"
    by (metis add.commute append_eq_conv_conj drop_drop)
  with post have "t = take i t @ m @ drop (i + length m) t"
    by (metis append_take_drop_id)
  with firsti i show ?thesis
    unfolding first_occurrence_iff by (simp add: min.absorb2)
qed

lemma indexOfFrom_offset_Some:
  assumes "first_occurrence e rest inner tail"
  shows "indexOfFrom (pre @ rest) e (length pre) = Some (length pre + length inner)"
proof -
  from assms have rest: "rest = inner @ e @ tail"
    and firstj: "\<forall>j<length inner. \<not> prefix e (drop j rest)"
    unfolding first_occurrence_iff by auto
  have "\<not> prefix e (drop j (pre @ rest))" if "length pre \<le> j" "j < length pre + length inner" for j
  proof -
    from that have "j - length pre < length inner" by arith
    with firstj have "\<not> prefix e (drop (j - length pre) rest)" by blast
    with that show ?thesis by simp
  qed
  then show ?thesis
    unfolding indexOfFrom_Some_iff using rest by auto
qed

lemma indexOfFrom_offset_None:
  assumes "\<not> sublist e rest"
  shows "indexOfFrom (pre @ rest) e (length pre) = None"
proof -
  have "\<not> prefix e (drop j (pre @ rest))" if "length pre \<le> j" for j
  proof
    assume "prefix e (drop j (pre @ rest))"
    with that have "prefix e (drop (j - length pre) rest)" by simp
    then have "sublist e rest"
      by (meson prefix_imp_sublist sublist_drop sublist_order.order_trans)
    with assms show False by blast
  qed
  then show ?thesis
    unfolding indexOfFrom_None_iff by auto
qed

lemma substring_middle: "substring (x @ y @ z) (length x) (length x + length y) = y"
  by (simp add: substring_def Let_def min_def max_def)

lemma substring_to_end: "substring (x @ y) (length x) (length (x @ y)) = y"
  by (simp add: substring_def Let_def min_def max_def)

lemma trim_trimmed_of: "trimmed_of raw (trim raw)"
proof -
  let ?a = "takeWhile trimmable raw"
  let ?b = "dropWhile trimmable raw"
  let ?c = "takeWhile trimmable (rev ?b)"
  let ?d = "dropWhile trimmable (rev ?b)"
  have "rev ?b = ?c @ ?d" by simp
  then have "?b = rev ?d @ rev ?c" by (metis rev_append rev_rev_ident)
  then have raw: "raw = ?a @ trim raw @ rev ?c"
    unfolding trim_def by (metis takeWhile_dropWhile_id)
  have la: "list_all trimmable ?a"
    by (simp add: list_all_iff) (meson set_takeWhileD)
  have lc: "list_all trimmable (rev ?c)"
    by (simp add: list_all_iff) (meson set_takeWhileD)
  have edge: "\<not> trimmable (hd (trim raw)) \<and> \<not> trimmable (last (trim raw))" if ne: "trim raw \<noteq> []"
  proof -
    from ne have dne: "?d \<noteq> []" by (simp add: trim_def)
    then have h: "\<not> trimmable (hd ?d)" by (rule hd_dropWhile)
    have "last (trim raw) = hd ?d" unfolding trim_def using dne by (simp add: last_rev)
    with h have l: "\<not> trimmable (last (trim raw))" by simp
    from dne have "?b \<noteq> []" by (metis dropWhile.simps(1) rev_is_Nil_conv)
    then have hb: "\<not> trimmable (hd ?b)" by (rule hd_dropWhile)
    have "?b = trim raw @ rev ?c" using \<open>?b = rev ?d @ rev ?c\<close> by (simp add: trim_def)
    with ne have "hd ?b = hd (trim raw)" by (metis hd_append2)
    with hb l show ?thesis by simp
  qed
  show ?thesis
    unfolding trimmed_of_def using raw la lc edge by blast
qed


lemma extractSection_absent:
  "\<not> sublist startMarker t \<Longrightarrow> extractSection (JString t) startMarker endMarker = Inr sentinel"
  by (simp add: extractSection_def indexOf_None_iff[symmetric])

lemma extractSection_to_end:
  assumes f: "first_occurrence startMarker t pre rest"
    and e: "\<not> truthy endMarker \<or> \<not> sublist (toString endMarker) rest"
  shows "extractSection (JString t) startMarker endMarker = Inr (trim rest)"
proof -
  from f have idx: "indexOf t startMarker = Some (length pre)"
    by (rule indexOf_first_occurrence)
  from f have teq: "t = (pre @ startMarker) @ rest" by (simp add: first_occurrence_def)
  have none: "indexOfFrom t (toString endMarker) (length pre + length startMarker) = None"
    if "\<not> sublist (toString endMarker) rest"
    using indexOfFrom_offset_None[OF that, of "pre @ startMarker"] teq by simp
  have "substring t (length pre + length startMarker) (length t) = rest"
    using substring_to_end[of "pre @ startMarker" rest] teq by simp
  with e idx none show ?thesis
    by (auto simp: extractSection_def Let_def)
qed

lemma extractSection_between:
  assumes f: "first_occurrence startMarker t pre rest"
    and tr: "truthy endMarker"
    and e: "first_occurrence (toString endMarker) rest inner tail"
  shows "extractSection (JString t) startMarker endMarker = Inr (trim inner)"
proof -
  from f have idx: "indexOf t startMarker = Some (length pre)"
    by (rule indexOf_first_occurrence)
  from f have teq: "t = (pre @ startMarker) @ rest" by (simp add: first_occurrence_def)
  from e have rest: "rest = inner @ toString endMarker @ tail" by (simp add: first_occurrence_def)
  have some: "indexOfFrom t (toString endMarker) (length pre + length startMarker)
      = Some (length pre + length startMarker + length inner)"
    using indexOfFrom_offset_Some[OF e, of "pre @ startMarker"] teq by simp
  have "substring t (length pre + length startMarker)
          (length pre + length startMarker + length inner) = inner"
    using substring_middle[of "pre @ startMarker" inner "toString endMarker @ tail"] teq rest
    by simp
  with tr idx some show ?thesis
    by (simp add: extractSection_def Let_def)
qed

section \<open>The extractor\<close>

text \<open>
  Claim C1. \<open>extractSection\<close> looks for the first occurrence of the start marker by
  comparing code units. When the marker does not occur the result is the sentinel.
  When it does, the content starts right behind it. With an end marker, a non-empty
  label, the content runs to the first occurrence of the end marker in what follows,
  or to the end of the text when the end marker does not occur there; with \<open>null\<close> it
  runs to the end of the text. The result is the content without its leading and
  trailing whitespace. With \<open>RECOMMENDATIONS\<close> and \<open>null\<close> this is everything behind
  the marker, trimmed.
\<close>

theorem extractSection_spec:
  "(\<not> sublist startMarker text \<longrightarrow>
      extractSection (JString text) startMarker endMarker = Inr sentinel) \<and>
   (first_occurrence startMarker text pre rest \<longrightarrow>
      (endMarker = JNull \<or> (endMarker = JString e \<and> e \<noteq> [] \<and> \<not> sublist e rest) \<longrightarrow>
         extractSection (JString text) startMarker endMarker = Inr (trim rest) \<and>
         trimmed_of rest (trim rest)) \<and>
      (endMarker = JString e \<and> e \<noteq> [] \<and> first_occurrence e rest inner tail \<longrightarrow>
         extractSection (JString text) startMarker endMarker = Inr (trim inner) \<and>
         trimmed_of inner (trim inner))) \<and>
   (first_occurrence RECOMMENDATIONS text pre rest \<longrightarrow>
      extractSection (JString text) RECOMMENDATIONS JNull = Inr (trim rest) \<and>
      trimmed_of rest (trim rest))"
  using extractSection_absent[of startMarker "text" endMarker]
    extractSection_to_end[of startMarker "text" pre rest endMarker]
    extractSection_between[of startMarker "text" pre rest endMarker inner tail]
    extractSection_to_end[of RECOMMENDATIONS "text" pre rest JNull]
    trim_trimmed_of[of rest] trim_trimmed_of[of inner]
  by auto

lemmas chars =
  lit_def NL_def SP_def DASH_def STAR_def isLineTerminator_def isWhiteSpace_def trimmable_def

lemmas tags = li_open_def li_close_def ul_open_def ul_close_def br_tag_def

text \<open>
  The theorem at three inputs: a text without the marker, the last section with a
  \<open>null\<close> end marker, and a section closed by its end marker.
\<close>

theorem extractSection_spec_witness:
  "extractSection (JString (lit ''Low risk'')) RECOMMENDATIONS JNull = Inr sentinel \<and>
   extractSection (JString (lit ''xRECOMMENDATIONS: sign  '')) RECOMMENDATIONS JNull =
     Inr (lit '': sign'') \<and>
   extractSection (JString (lit ''AA b AA c'')) (lit ''AA'') (JString (lit ''AA'')) =
     Inr (lit ''b'')"
proof -
  have a: "\<not> sublist RECOMMENDATIONS (lit ''Low risk'')"
    by (simp add: RECOMMENDATIONS_def lit_def sublist_code)
  have b: "first_occurrence RECOMMENDATIONS (lit ''xRECOMMENDATIONS: sign  '')
             (lit ''x'') (lit '': sign  '')"
    by (simp add: first_occurrence_iff RECOMMENDATIONS_def lit_def)
  have c: "first_occurrence (lit ''AA'') (lit ''AA b AA c'') [] (lit '' b AA c'')"
    by (simp add: first_occurrence_iff lit_def)
  have d: "first_occurrence (lit ''AA'') (lit '' b AA c'') (lit '' b '') (lit '' c'')"
    by (simp add: first_occurrence_iff lit_def less_Suc_eq)
  have e: "lit ''AA'' \<noteq> []"
    by (simp add: lit_def)
  have 1: "extractSection (JString (lit ''Low risk'')) RECOMMENDATIONS JNull = Inr sentinel"
    using extractSection_spec[of RECOMMENDATIONS "lit ''Low risk''" JNull] a by blast
  have 2: "extractSection (JString (lit ''xRECOMMENDATIONS: sign  '')) RECOMMENDATIONS JNull =
      Inr (trim (lit '': sign  ''))"
    using extractSection_spec[of RECOMMENDATIONS "lit ''xRECOMMENDATIONS: sign  ''" JNull
        "lit ''x''" "lit '': sign  ''"] b
    by blast
  have 3: "extractSection (JString (lit ''AA b AA c'')) (lit ''AA'') (JString (lit ''AA'')) =
      Inr (trim (lit '' b ''))"
    using extractSection_spec[of "lit ''AA''" "lit ''AA b AA c''" "JString (lit ''AA'')" "[]"
        "lit '' b AA c''" "lit ''AA''" "lit '' b ''" "lit '' c''"] c d e
    by blast
  show ?thesis
    unfolding 1 2 3 by (simp add: trim_def chars)
qed

text \<open>
  The empty string is no marker. As an end marker the code takes it for a missing one
  and returns the rest of the text.
\<close>

lemma extractSection_empty_endMarker:
  "extractSection (JString (lit ''A b'')) (lit ''A'') (JString []) = Inr (lit ''b'')"
  by (simp add: extractSection_def indexOf_def indexOfFrom_def substring_def trim_def chars)

text \<open>
  Consecutive markers: when the second marker first occurs behind the first occurrence
  of the first, what lies between them is the first's section.
\<close>

lemma first_occurrence_drop:
  assumes "first_occurrence m (a @ t) (a @ pre) post"
  shows "first_occurrence m t pre post"
proof -
  from assms have t: "t = pre @ m @ post" by (simp add: first_occurrence_def)
  have "length pre \<le> length x" if "t = x @ m @ y" for x y
  proof -
    from that have "a @ t = (a @ x) @ m @ y" by simp
    with assms have "length (a @ pre) \<le> length (a @ x)"
      unfolding first_occurrence_def by blast
    then show ?thesis by simp
  qed
  with t show ?thesis unfolding first_occurrence_def by blast
qed

lemma append_eq_split:
  assumes "a @ b = c @ d" and "length a \<le> length c"
  shows "\<exists>r. c = a @ r \<and> b = r @ d"
  using assms by (auto simp: append_eq_append_conv2)

lemma marker_nonempty:
  "KEY_IMPORTANT_POINTS \<noteq> []" "SUSPICIOUS_ELEMENTS \<noteq> []" "RISK_ASSESSMENT \<noteq> []"
  "RECOMMENDATIONS \<noteq> []"
  by (simp_all add: KEY_IMPORTANT_POINTS_def SUSPICIOUS_ELEMENTS_def RISK_ASSESSMENT_def
      RECOMMENDATIONS_def lit_def)

lemma next_marker:
  assumes f1: "first_occurrence m1 t p1 q1" and f2: "first_occurrence m2 t p2 q2"
    and le: "length p1 + length m1 \<le> length p2"
  shows "\<exists>r. q1 = r @ m2 @ q2 \<and> p2 = p1 @ m1 @ r \<and> first_occurrence m2 q1 r q2"
proof -
  from f1 f2 have "(p1 @ m1) @ q1 = p2 @ (m2 @ q2)" by (simp add: first_occurrence_def)
  moreover from le have "length (p1 @ m1) \<le> length p2" by simp
  ultimately obtain r where r: "p2 = (p1 @ m1) @ r" "q1 = r @ m2 @ q2"
    using append_eq_split by blast
  from f1 have "t = (p1 @ m1) @ q1" by (simp add: first_occurrence_def)
  with f2 r have "first_occurrence m2 ((p1 @ m1) @ q1) ((p1 @ m1) @ r) q2" by simp
  then have "first_occurrence m2 q1 r q2" by (rule first_occurrence_drop)
  with r show ?thesis by simp
qed

text \<open>
  Claim C3, as the code has it. When the four markers first occur in ascending order
  and without overlapping, the four extractions return the trimmed forms of four
  stretches \<open>r1\<close>, ..., \<open>r4\<close> of the text that lie one behind the other, each
  between its marker and the next, and the text is put together again from what
  precedes the first marker, the markers and the four stretches. Each stretch is its
  section with the trimmed whitespace around it.
\<close>

theorem sections_reconstruct:
  assumes k: "indexOf t KEY_IMPORTANT_POINTS = Some i1"
    and s: "indexOf t SUSPICIOUS_ELEMENTS = Some i2"
    and r: "indexOf t RISK_ASSESSMENT = Some i3"
    and c: "indexOf t RECOMMENDATIONS = Some i4"
    and o1: "i1 + length KEY_IMPORTANT_POINTS \<le> i2"
    and o2: "i2 + length SUSPICIOUS_ELEMENTS \<le> i3"
    and o3: "i3 + length RISK_ASSESSMENT \<le> i4"
  shows "\<exists>s1 s2 s3 s4 r1 r2 r3 r4.
     extractSection (JString t) KEY_IMPORTANT_POINTS (JString SUSPICIOUS_ELEMENTS) = Inr s1 \<and>
     extractSection (JString t) SUSPICIOUS_ELEMENTS (JString RISK_ASSESSMENT) = Inr s2 \<and>
     extractSection (JString t) RISK_ASSESSMENT (JString RECOMMENDATIONS) = Inr s3 \<and>
     extractSection (JString t) RECOMMENDATIONS JNull = Inr s4 \<and>
     t = take i1 t @ KEY_IMPORTANT_POINTS @ r1 @ SUSPICIOUS_ELEMENTS @ r2 @
           RISK_ASSESSMENT @ r3 @ RECOMMENDATIONS @ r4 \<and>
     trimmed_of r1 s1 \<and> trimmed_of r2 s2 \<and> trimmed_of r3 s3 \<and> trimmed_of r4 s4"
proof -
  let ?K = KEY_IMPORTANT_POINTS and ?S = SUSPICIOUS_ELEMENTS
  let ?R = RISK_ASSESSMENT and ?C = RECOMMENDATIONS
  define p1 q1 where "p1 = take i1 t" and "q1 = drop (i1 + length ?K) t"
  define p2 q2 where "p2 = take i2 t" and "q2 = drop (i2 + length ?S) t"
  define p3 q3 where "p3 = take i3 t" and "q3 = drop (i3 + length ?R) t"
  define p4 q4 where "p4 = take i4 t" and "q4 = drop (i4 + length ?C) t"
  have f1: "first_occurrence ?K t p1 q1" and f2: "first_occurrence ?S t p2 q2"
    and f3: "first_occurrence ?R t p3 q3" and f4: "first_occurrence ?C t p4 q4"
    unfolding p1_def q1_def p2_def q2_def p3_def q3_def p4_def q4_def
    using k s r c by (auto intro: indexOf_Some_first_occurrence)
  have len: "length p1 = i1" "length p2 = i2" "length p3 = i3" "length p4 = i4"
    using indexOf_first_occurrence[OF f1] indexOf_first_occurrence[OF f2]
      indexOf_first_occurrence[OF f3] indexOf_first_occurrence[OF f4] k s r c
    by simp_all
  obtain r1 where r1: "q1 = r1 @ ?S @ q2" "first_occurrence ?S q1 r1 q2"
    using next_marker[OF f1 f2] o1 len by auto
  obtain r2 where r2: "q2 = r2 @ ?R @ q3" "first_occurrence ?R q2 r2 q3"
    using next_marker[OF f2 f3] o2 len by auto
  obtain r3 where r3: "q3 = r3 @ ?C @ q4" "first_occurrence ?C q3 r3 q4"
    using next_marker[OF f3 f4] o3 len by auto
  have e1: "extractSection (JString t) ?K (JString ?S) = Inr (trim r1)"
    using extractSection_between[OF f1, of "JString ?S" r1 q2] r1 marker_nonempty by simp
  have e2: "extractSection (JString t) ?S (JString ?R) = Inr (trim r2)"
    using extractSection_between[OF f2, of "JString ?R" r2 q3] r2 marker_nonempty by simp
  have e3: "extractSection (JString t) ?R (JString ?C) = Inr (trim r3)"
    using extractSection_between[OF f3, of "JString ?C" r3 q4] r3 marker_nonempty by simp
  have e4: "extractSection (JString t) ?C JNull = Inr (trim q4)"
    using extractSection_to_end[OF f4, of JNull] by simp
  from f1 have "t = p1 @ ?K @ q1" by (simp add: first_occurrence_def)
  with r1 r2 r3 have "t = take i1 t @ ?K @ r1 @ ?S @ r2 @ ?R @ r3 @ ?C @ q4"
    by (simp add: p1_def)
  with e1 e2 e3 e4 show ?thesis
    using trim_trimmed_of by blast
qed

text \<open>The theorem at the example answer, where the markers start at 0, 47, 81 and 102.\<close>

theorem sections_reconstruct_witness:
  "\<exists>s1 s2 s3 s4 r1 r2 r3 r4.
     extractSection (JString exampleAnalysis) KEY_IMPORTANT_POINTS
       (JString SUSPICIOUS_ELEMENTS) = Inr s1 \<and>
     extractSection (JString exampleAnalysis) SUSPICIOUS_ELEMENTS
       (JString RISK_ASSESSMENT) = Inr s2 \<and>
     extractSection (JString exampleAnalysis) RISK_ASSESSMENT
       (JString RECOMMENDATIONS) = Inr s3 \<and>
     extractSection (JString exampleAnalysis) RECOMMENDATIONS JNull = Inr s4 \<and>
     exampleAnalysis =
       take 0 exampleAnalysis @ KEY_IMPORTANT_POINTS @ r1 @ SUSPICIOUS_ELEMENTS @ r2 @
         RISK_ASSESSMENT @ r3 @ RECOMMENDATIONS @ r4 \<and>
     trimmed_of r1 s1 \<and> trimmed_of r2 s2 \<and> trimmed_of r3 s3 \<and> trimmed_of r4 s4"
proof -
  have k: "indexOf exampleAnalysis KEY_IMPORTANT_POINTS = Some 0" by code_simp
  have s: "indexOf exampleAnalysis SUSPICIOUS_ELEMENTS = Some 47" by code_simp
  have r: "indexOf exampleAnalysis RISK_ASSESSMENT = Some 81" by code_simp
  have c: "indexOf exampleAnalysis RECOMMENDATIONS = Some 102" by code_simp
  have o1: "0 + length KEY_IMPORTANT_POINTS \<le> 47"
    by (simp add: KEY_IMPORTANT_POINTS_def lit_def)
  have o2: "47 + length SUSPICIOUS_ELEMENTS \<le> 81"
    by (simp add: SUSPICIOUS_ELEMENTS_def lit_def)
  have o3: "81 + length RISK_ASSESSMENT \<le> 102"
    by (simp add: RISK_ASSESSMENT_def lit_def)
  show ?thesis
    by (rule sections_reconstruct[OF k s r c o1 o2 o3])
qed

text \<open>
  Claim C3 as stated rebuilds the whole text from the markers, the sections and the
  trimmed whitespace. What precedes the first marker belongs to no section: here the
  markers are in ascending order, the sections are \<open>a\<close>, \<open>b\<close>, \<open>c\<close>, \<open>d\<close> with
  nothing trimmed, and the leading \<open>x\<close>, which is not whitespace, is in none of them.
\<close>

theorem preamble_lost_counterexample:
  "indexOf prefacedAnalysis KEY_IMPORTANT_POINTS = Some 1 \<and>
   indexOf prefacedAnalysis SUSPICIOUS_ELEMENTS = Some 22 \<and>
   indexOf prefacedAnalysis RISK_ASSESSMENT = Some 42 \<and>
   indexOf prefacedAnalysis RECOMMENDATIONS = Some 58 \<and>
   extractSection (JString prefacedAnalysis) KEY_IMPORTANT_POINTS
     (JString SUSPICIOUS_ELEMENTS) = Inr (lit ''a'') \<and>
   extractSection (JString prefacedAnalysis) SUSPICIOUS_ELEMENTS
     (JString RISK_ASSESSMENT) = Inr (lit ''b'') \<and>
   extractSection (JString prefacedAnalysis) RISK_ASSESSMENT
     (JString RECOMMENDATIONS) = Inr (lit ''c'') \<and>
   extractSection (JString prefacedAnalysis) RECOMMENDATIONS JNull = Inr (lit ''d'') \<and>
   \<not> trimmable (hd prefacedAnalysis) \<and>
   KEY_IMPORTANT_POINTS @ lit ''a'' @ SUSPICIOUS_ELEMENTS @ lit ''b'' @
     RISK_ASSESSMENT @ lit ''c'' @ RECOMMENDATIONS @ lit ''d'' \<noteq> prefacedAnalysis"
  by code_simp

section \<open>The formatter\<close>

text \<open>
  Claim C5: the empty string, \<open>null\<close> and the sentinel itself are all formatted to the
  sentinel.
\<close>

theorem formatText_sentinel:
  "formatText (JString []) = Inr sentinel \<and>
   formatText JNull = Inr sentinel \<and>
   formatText (JString sentinel) = Inr sentinel"
  by (simp add: formatText_def sentinel_def replaceNewlines_def matchList_def chars tags)

subsection \<open>Bullet lines\<close>

lemma noTerminator_simps [simp]:
  "noTerminator []"
  "noTerminator (x # xs) \<longleftrightarrow> \<not> isLineTerminator x \<and> noTerminator xs"
  "noTerminator (xs @ ys) \<longleftrightarrow> noTerminator xs \<and> noTerminator ys"
  by (auto simp: noTerminator_def)

lemma takeWhile_noTerminator:
  "noTerminator l \<Longrightarrow> takeWhile (\<lambda>x. \<not> isLineTerminator x) l = l"
  by (induction l) auto

lemma dropWhile_noTerminator:
  "noTerminator l \<Longrightarrow> dropWhile (\<lambda>x. \<not> isLineTerminator x) l = []"
  by (induction l) auto

lemma takeWhile_line:
  "noTerminator l \<Longrightarrow> isLineTerminator c \<Longrightarrow>
     takeWhile (\<lambda>x. \<not> isLineTerminator x) (l @ c # rest) = l"
  by (induction l) auto

lemma dropWhile_line:
  "noTerminator l \<Longrightarrow> isLineTerminator c \<Longrightarrow>
     dropWhile (\<lambda>x. \<not> isLineTerminator x) (l @ c # rest) = c # rest"
  by (induction l) auto

lemma replaceBullets_inside_last:
  "noTerminator l \<Longrightarrow> replaceBullets b False l = l"
  by (induction l) auto

lemma replaceBullets_inside:
  "noTerminator l \<Longrightarrow> isLineTerminator c \<Longrightarrow>
     replaceBullets b False (l @ c # rest) = l @ c # replaceBullets b True rest"
  by (induction l) auto

lemma SP_not_terminator: "\<not> isLineTerminator SP"
  by (simp add: SP_def isLineTerminator_def)

lemma replaceBullets_last_line:
  assumes "noTerminator l"
  shows "replaceBullets b True l = bulletItem b l"
proof (cases l)
  case Nil
  then show ?thesis by (simp add: bulletItem_def)
next
  case (Cons d ds)
  show ?thesis
  proof (cases "d = b \<and> prefix [SP] ds")
    case True
    then obtain ds' where ds: "ds = SP # ds'" by (auto simp: prefix_def)
    with assms Cons have "noTerminator ds'" by simp
    with True Cons ds show ?thesis
      by (simp add: bulletItem_def takeWhile_noTerminator dropWhile_noTerminator)
  next
    case False
    with assms Cons show ?thesis
      by (auto simp: bulletItem_def replaceBullets_inside_last)
  qed
qed

lemma replaceBullets_line:
  assumes l: "noTerminator l" and c: "isLineTerminator c" and b: "\<not> isLineTerminator b"
  shows "replaceBullets b True (l @ c # rest) = bulletItem b l @ c # replaceBullets b True rest"
proof (cases l)
  case Nil
  with c b show ?thesis by (auto simp: bulletItem_def)
next
  case (Cons d ds)
  show ?thesis
  proof (cases "d = b \<and> prefix [SP] (ds @ c # rest)")
    case True
    with c SP_not_terminator obtain ds' where ds: "ds = SP # ds'"
      by (cases ds) auto
    with l Cons have "noTerminator ds'" by simp
    with True Cons ds c show ?thesis
      by (simp add: bulletItem_def takeWhile_line dropWhile_line)
  next
    case False
    then have "\<not> (d = b \<and> prefix [SP] ds)"
      by (auto simp: prefix_def)
    then have item: "bulletItem b l = l"
      using Cons by (auto simp: bulletItem_def)
    from l Cons have d: "\<not> isLineTerminator d" and ds: "noTerminator ds" by simp_all
    from False d have "replaceBullets b True (d # ds @ c # rest) =
        d # replaceBullets b False (ds @ c # rest)"
      by auto
    also have "\<dots> = d # ds @ c # replaceBullets b True rest"
      using ds c by (simp add: replaceBullets_inside)
    finally show ?thesis using item Cons by simp
  qed
qed

lemma noTerminator_tags: "noTerminator li_open" "noTerminator li_close"
  by (simp_all add: li_open_def li_close_def lit_def isLineTerminator_def)

lemma noTerminator_drop: "noTerminator l \<Longrightarrow> noTerminator (drop n l)"
  by (simp add: noTerminator_def list_all_iff) (meson in_set_dropD)

lemma noTerminator_bulletItem: "noTerminator l \<Longrightarrow> noTerminator (bulletItem b l)"
  by (simp add: bulletItem_def noTerminator_tags noTerminator_drop)

lemma bulletItem_twice: "bulletItem STAR (bulletItem DASH l) = listItem l"
  by (auto simp: bulletItem_def listItem_def li_open_def lit_def STAR_def DASH_def SP_def)

lemma bullet_not_terminator: "\<not> isLineTerminator DASH" "\<not> isLineTerminator STAR"
  by (simp_all add: DASH_def STAR_def isLineTerminator_def)

lemma bullets_last_line:
  "noTerminator l \<Longrightarrow> replaceBullets STAR True (replaceBullets DASH True l) = listItem l"
  by (simp add: replaceBullets_last_line noTerminator_bulletItem bulletItem_twice)

lemma bullets_line:
  "noTerminator l \<Longrightarrow> isLineTerminator c \<Longrightarrow>
     replaceBullets STAR True (replaceBullets DASH True (l @ c # rest)) =
       listItem l @ c # replaceBullets STAR True (replaceBullets DASH True rest)"
  by (simp add: replaceBullets_line bullet_not_terminator noTerminator_bulletItem
      bulletItem_twice)

subsection \<open>The list container\<close>

lemma find_rev_upt_Some_iff:
  "find P (rev [a ..< b]) = Some p \<longleftrightarrow>
     a \<le> p \<and> p < b \<and> P p \<and> (\<forall>q. p < q \<longrightarrow> q < b \<longrightarrow> \<not> P q)"
proof (induction b)
  case 0
  then show ?case by simp
next
  case (Suc b)
  show ?case
  proof (cases "a \<le> b")
    case False
    then show ?thesis by auto
  next
    case True
    show ?thesis
    proof (cases "P b")
      case True
      with \<open>a \<le> b\<close> show ?thesis
        by (auto simp: less_Suc_eq) 
    next
      case False
      with \<open>a \<le> b\<close> Suc show ?thesis
        by (auto simp: less_Suc_eq)
    qed
  qed
qed

lemma find_rev_upt_None_iff:
  "find P (rev [a ..< b]) = None \<longleftrightarrow> (\<forall>q. a \<le> q \<longrightarrow> q < b \<longrightarrow> \<not> P q)"
  by (auto simp: find_None_iff)

lemma tag_lengths [simp]:
  "length li_open = 4" "length li_close = 5" "length ul_open = 4" "length ul_close = 5"
  by (simp_all add: li_open_def li_close_def ul_open_def ul_close_def lit_def)

lemma matchList_Some_iff:
  "matchList t = Some e \<longleftrightarrow>
     prefix li_open t \<and>
     (\<exists>p. e = p + 5 \<and> 4 \<le> p \<and> p \<le> length t \<and> prefix li_close (drop p t) \<and>
          (\<forall>q. p < q \<longrightarrow> q \<le> length t \<longrightarrow> \<not> prefix li_close (drop q t)))"
  by (auto simp: matchList_def find_rev_upt_Some_iff less_Suc_eq_le simp del: upt_Suc)

lemma matchList_None_iff:
  "matchList t = None \<longleftrightarrow>
     (prefix li_open t \<longrightarrow> (\<forall>q. 4 \<le> q \<longrightarrow> q \<le> length t \<longrightarrow> \<not> prefix li_close (drop q t)))"
  by (auto simp: matchList_def find_rev_upt_None_iff less_Suc_eq_le simp del: upt_Suc)

lemma replaceLists_unfold:
  "t \<noteq> [] \<Longrightarrow>
   replaceLists t =
     (case matchList t of
        Some e \<Rightarrow> ul_open @ take e t @ ul_close @ replaceLists (drop e t)
      | None \<Rightarrow> hd t # replaceLists (tl t))"
  by (cases t) (simp_all split: option.split)

lemma replaceLists_no_match:
  "(\<forall>k. matchList (drop k t) = None) \<Longrightarrow> replaceLists t = t"
proof (induction t)
  case Nil
  then show ?case by simp
next
  case (Cons c cs)
  from Cons.prems have "matchList (drop 0 (c # cs)) = None" by blast
  then have m: "matchList (c # cs) = None" by simp
  have "matchList (drop k cs) = None" for k
    using Cons.prems[rule_format, of "Suc k"] by simp
  with Cons.IH have "replaceLists cs = cs" by simp
  with m show ?case by simp
qed

lemma replaceLists_no_close:
  assumes "\<not> sublist li_close t"
  shows "replaceLists t = t"
proof (rule replaceLists_no_match, intro allI)
  fix k
  have "\<not> prefix li_close (drop q (drop k t))" for q
    using assms by (meson prefix_imp_sublist sublist_drop sublist_order.order_trans)
  then show "matchList (drop k t) = None"
    by (simp add: matchList_None_iff)
qed

lemma replaceLists_no_open:
  assumes "\<not> sublist li_open t"
  shows "replaceLists t = t"
proof (rule replaceLists_no_match, intro allI)
  fix k
  have "\<not> prefix li_open (drop k t)"
    using assms by (meson prefix_imp_sublist sublist_drop sublist_order.order_trans)
  then show "matchList (drop k t) = None"
    by (simp add: matchList_None_iff)
qed

lemma replaceLists_skip:
  "(\<forall>k<length pre. \<not> prefix li_open (drop k (pre @ u))) \<Longrightarrow>
     replaceLists (pre @ u) = pre @ replaceLists u"
proof (induction pre)
  case Nil
  then show ?case by simp
next
  case (Cons c cs)
  from Cons.prems have "\<not> prefix li_open (drop 0 ((c # cs) @ u))" by blast
  then have m: "matchList (c # cs @ u) = None" by (simp add: matchList_None_iff)
  have "\<forall>k<length cs. \<not> prefix li_open (drop k (cs @ u))"
  proof (intro allI impI)
    fix k assume "k < length cs"
    then have "Suc k < length (c # cs)" by simp
    with Cons.prems have "\<not> prefix li_open (drop (Suc k) ((c # cs) @ u))" by blast
    then show "\<not> prefix li_open (drop k (cs @ u))" by simp
  qed
  with Cons.IH have "replaceLists (cs @ u) = cs @ replaceLists u" by simp
  with m show ?case by simp
qed

lemma last_occurrence_iff:
  "last_occurrence m t pre post \<longleftrightarrow>
     t = pre @ m @ post \<and> (\<forall>j. length pre < j \<longrightarrow> j \<le> length t \<longrightarrow> \<not> prefix m (drop j t))"
proof -
  have "(\<forall>pre' post'. t = pre' @ m @ post' \<longrightarrow> length pre' \<le> length pre) \<longleftrightarrow>
        (\<forall>j. length pre < j \<longrightarrow> j \<le> length t \<longrightarrow> \<not> prefix m (drop j t))"
  proof
    assume h: "\<forall>pre' post'. t = pre' @ m @ post' \<longrightarrow> length pre' \<le> length pre"
    show "\<forall>j. length pre < j \<longrightarrow> j \<le> length t \<longrightarrow> \<not> prefix m (drop j t)"
    proof (intro allI impI notI)
      fix j assume j: "length pre < j" "j \<le> length t" and p: "prefix m (drop j t)"
      then obtain pre' post' where "t = pre' @ m @ post'" "length pre' = j"
        using prefix_drop_decomp[of j t m] by blast
      with h j show False by fastforce
    qed
  next
    assume h: "\<forall>j. length pre < j \<longrightarrow> j \<le> length t \<longrightarrow> \<not> prefix m (drop j t)"
    show "\<forall>pre' post'. t = pre' @ m @ post' \<longrightarrow> length pre' \<le> length pre"
    proof (intro allI impI)
      fix pre' post' assume t': "t = pre' @ m @ post'"
      then have "prefix m (drop (length pre') t)" "length pre' \<le> length t" by simp_all
      with h show "length pre' \<le> length pre" by (meson not_less)
    qed
  qed
  then show ?thesis unfolding last_occurrence_def by blast
qed

lemma last_occurrence_no_later:
  assumes "last_occurrence m t pre post" and "m \<noteq> []"
  shows "\<not> sublist m post"
proof
  assume "sublist m post"
  then obtain a b where "post = a @ m @ b" by (auto simp: sublist_def)
  with assms(1) have "t = (pre @ m @ a) @ m @ b" by (simp add: last_occurrence_def)
  with assms(1) have "length (pre @ m @ a) \<le> length pre"
    unfolding last_occurrence_def by blast
  with assms(2) show False by simp
qed

lemma matchList_first_last:
  assumes l: "last_occurrence li_close (li_open @ mid @ li_close @ post) (li_open @ mid) post"
  shows "matchList (li_open @ mid @ li_close @ post) = Some (length (li_open @ mid @ li_close))"
proof -
  let ?u = "li_open @ mid @ li_close @ post"
  have "\<not> prefix li_close (drop q ?u)" if "length (li_open @ mid) < q" "q \<le> length ?u" for q
    using l that unfolding last_occurrence_iff by blast
  moreover have "prefix li_close (drop (length (li_open @ mid)) ?u)" by simp
  ultimately show ?thesis
    unfolding matchList_Some_iff
    by (intro conjI exI[of _ "length (li_open @ mid)"]) auto
qed

lemma last_occurrence_drop:
  assumes "last_occurrence m (a @ t) (a @ pre) post"
  shows "last_occurrence m t pre post"
proof -
  from assms have t: "t = pre @ m @ post" by (simp add: last_occurrence_def)
  have "length x \<le> length pre" if "t = x @ m @ y" for x y
  proof -
    from that have "a @ t = (a @ x) @ m @ y" by simp
    with assms have "length (a @ x) \<le> length (a @ pre)"
      unfolding last_occurrence_def by blast
    then show ?thesis by simp
  qed
  with t show ?thesis unfolding last_occurrence_def by blast
qed

lemma li_close_nonempty: "li_close \<noteq> []"
  by (simp add: li_close_def lit_def)

lemma replaceLists_wrap:
  assumes f: "first_occurrence li_open u pre (mid @ li_close @ post)"
    and l: "last_occurrence li_close u (pre @ li_open @ mid) post"
  shows "replaceLists u = pre @ ul_open @ li_open @ mid @ li_close @ ul_close @ post"
proof -
  let ?v = "li_open @ mid @ li_close @ post"
  from f have u: "u = pre @ ?v" by (simp add: first_occurrence_def)
  from f have "\<forall>k<length pre. \<not> prefix li_open (drop k (pre @ ?v))"
    unfolding first_occurrence_iff using u by simp
  then have skip: "replaceLists (pre @ ?v) = pre @ replaceLists ?v"
    by (rule replaceLists_skip)
  from l u have "last_occurrence li_close (pre @ ?v) (pre @ li_open @ mid) post" by simp
  then have l': "last_occurrence li_close ?v (li_open @ mid) post"
    by (rule last_occurrence_drop)
  then have m: "matchList ?v = Some (length (li_open @ mid @ li_close))"
    by (rule matchList_first_last)
  have post: "replaceLists post = post"
    using last_occurrence_no_later[OF l' li_close_nonempty] by (rule replaceLists_no_close)
  have ne: "?v \<noteq> []" by (simp add: li_open_def lit_def)
  have tk: "take (length (li_open @ mid @ li_close)) ?v = li_open @ mid @ li_close"
    and dr: "drop (length (li_open @ mid @ li_close)) ?v = post"
    by simp_all
  have "replaceLists ?v = ul_open @ (li_open @ mid @ li_close) @ ul_close @ post"
    unfolding replaceLists_unfold[OF ne] m option.case tk dr post ..
  with skip u show ?thesis by simp
qed

lemma replaceLists_unmatched:
  assumes "\<not> (\<exists>pre mid post. u = pre @ li_open @ mid @ li_close @ post)"
  shows "replaceLists u = u"
proof (rule replaceLists_no_match, intro allI)
  fix k
  show "matchList (drop k u) = None"
  proof (rule ccontr)
    assume "matchList (drop k u) \<noteq> None"
    then obtain e where "matchList (drop k u) = Some e" by blast
    then obtain p where o: "prefix li_open (drop k u)" and p: "4 \<le> p" "p \<le> length (drop k u)"
      and c: "prefix li_close (drop p (drop k u))"
      unfolding matchList_Some_iff by blast
    from o obtain r where r: "drop k u = li_open @ r" by (auto simp: prefix_def)
    with p c have "prefix li_close (drop (p - 4) r)" by simp
    then obtain post where "drop (p - 4) r = li_close @ post" by (auto simp: prefix_def)
    then have "r = take (p - 4) r @ li_close @ post"
      by (metis append_take_drop_id)
    with r have "u = take k u @ li_open @ take (p - 4) r @ li_close @ post"
      by (metis append_take_drop_id)
    with assms show False by blast
  qed
qed

subsection \<open>Newlines\<close>

lemma formatText_string:
  "t \<noteq> [] \<Longrightarrow> formatText (JString t) = Inr (replaceNewlines (replaceLists (bulletLines t)))"
  by (simp add: formatText_def bulletLines_def)

lemma replaceNewlines_append [simp]:
  "replaceNewlines (a @ b) = replaceNewlines a @ replaceNewlines b"
  by (simp add: replaceNewlines_def)

lemma replaceNewlines_Cons:
  "replaceNewlines (c # cs) = (if c = NL then br_tag else [c]) @ replaceNewlines cs"
  by (simp add: replaceNewlines_def)

lemma replaceNewlines_id: "NL \<notin> set x \<Longrightarrow> replaceNewlines x = x"
  by (induction x) (auto simp: replaceNewlines_Cons, simp add: replaceNewlines_def)

lemma replaceNewlines_tags [simp]:
  "replaceNewlines li_open = li_open" "replaceNewlines li_close = li_close"
  by (rule replaceNewlines_id, simp add: li_open_def li_close_def lit_def NL_def)+

lemma noTerminator_no_NL: "noTerminator l \<Longrightarrow> NL \<notin> set l"
  by (auto simp: noTerminator_def list_all_iff isLineTerminator_def NL_def)

lemma count_NL_replaceBullets:
  "b \<noteq> NL \<Longrightarrow> count_list (replaceBullets b bol t) NL = count_list t NL"
proof (induction b bol t rule: replaceBullets.induct)
  case (1 b bol)
  then show ?case by simp
next
  case (2 b bol c cs)
  show ?case
  proof (cases "bol \<and> c = b \<and> prefix [SP] cs")
    case True
    then obtain cs' where cs: "cs = SP # cs'" by (auto simp: prefix_def)
    let ?P = "\<lambda>x. \<not> isLineTerminator x"
    have tags: "count_list li_open NL = 0" "count_list li_close NL = 0"
      by (simp_all add: li_open_def li_close_def lit_def NL_def)
    have "count_list (takeWhile ?P cs') NL + count_list (dropWhile ?P cs') NL = count_list cs' NL"
      by (metis count_list_append takeWhile_dropWhile_id)
    moreover have "count_list (replaceBullets b False (dropWhile ?P (tl cs))) NL =
        count_list (dropWhile ?P (tl cs)) NL"
      using "2.IH"(1)[OF True] "2.prems" by simp
    ultimately show ?thesis
      using True cs "2.prems" tags by (simp add: SP_def NL_def)
  next
    case False
    with "2.IH"(2) "2.prems" show ?thesis by auto
  qed
qed

lemma count_NL_replaceLists: "count_list (replaceLists t) NL = count_list t NL"
proof (induction t rule: replaceLists.induct)
  case 1
  then show ?case by simp
next
  case (2 c cs)
  show ?case
  proof (cases "matchList (c # cs)")
    case None
    with "2.IH"(1) show ?thesis by simp
  next
    case (Some e)
    have tags: "count_list ul_open NL = 0" "count_list ul_close NL = 0"
      by (simp_all add: ul_open_def ul_close_def lit_def NL_def)
    have "count_list (take e (c # cs)) NL + count_list (drop e (c # cs)) NL =
        count_list (c # cs) NL"
      by (metis append_take_drop_id count_list_append)
    with Some "2.IH"(2)[OF Some] tags show ?thesis by simp
  qed
qed

lemma count_NL_bulletLines: "count_list (bulletLines t) NL = count_list t NL"
proof -
  have "STAR \<noteq> NL" "DASH \<noteq> NL" by (simp_all add: STAR_def DASH_def NL_def)
  then show ?thesis by (simp add: bulletLines_def count_NL_replaceBullets)
qed

lemma last_occurrenceI:
  assumes t: "t = pre @ m @ post" and m: "m \<noteq> []" and n: "\<not> sublist m (tl m @ post)"
  shows "last_occurrence m t pre post"
  unfolding last_occurrence_iff
proof (intro conjI allI impI notI)
  show "t = pre @ m @ post" by (rule t)
next
  fix j assume j: "length pre < j" "j \<le> length t" and p: "prefix m (drop j t)"
  from m t have "t = (pre @ [hd m]) @ tl m @ post" by simp
  moreover from j have "length (pre @ [hd m]) \<le> j" by simp
  ultimately have "drop j t = drop (j - length (pre @ [hd m])) (tl m @ post)"
    by (metis drop_append drop_all append_Nil)
  with p have "sublist m (tl m @ post)"
    by (metis prefix_imp_sublist sublist_drop sublist_order.order_trans)
  with n show False by blast
qed

lemma first_occurrence_Nil: "first_occurrence m (m @ post) [] post"
  by (simp add: first_occurrence_def)

lemma last_occurrence_end: "last_occurrence m (pre @ m) pre []"
  unfolding last_occurrence_def
proof (intro conjI allI impI)
  fix pre' post' assume "pre @ m = pre' @ m @ post'"
  then have "length (pre @ m) = length (pre' @ m @ post')" by simp
  then show "length pre' \<le> length pre" by simp
qed simp

lemma listItem_bulleted: "bulleted l \<Longrightarrow> listItem l = li_open @ drop 2 l @ li_close"
  by (simp add: listItem_def bulleted_def)

lemma adjacent_items:
  assumes l1: "noTerminator l1" and l2: "noTerminator l2" and b1: "bulleted l1" and b2: "bulleted l2"
  shows "formatText (JString (l1 @ NL # l2)) =
     Inr (ul_open @ listItem l1 @ br_tag @ listItem l2 @ ul_close)"
proof -
  have nl: "isLineTerminator NL" by (simp add: NL_def isLineTerminator_def)
  let ?mid = "drop 2 l1 @ li_close @ NL # li_open @ drop 2 l2"
  have u: "bulletLines (l1 @ NL # l2) = li_open @ ?mid @ li_close"
    using l1 l2 b1 b2 nl
    by (simp add: bulletLines_def bullets_line bullets_last_line listItem_bulleted)
  have f: "first_occurrence li_open (li_open @ ?mid @ li_close) [] (?mid @ li_close @ [])"
    using first_occurrence_Nil[of li_open "?mid @ li_close"] by simp
  have l: "last_occurrence li_close (li_open @ ?mid @ li_close) ([] @ li_open @ ?mid) []"
    using last_occurrence_end[of li_close "li_open @ ?mid"] by simp
  have w: "replaceLists (li_open @ ?mid @ li_close) =
      ul_open @ li_open @ ?mid @ li_close @ ul_close"
    using replaceLists_wrap[OF f l] by simp
  have "NL \<notin> set (drop 2 l1)" "NL \<notin> set (drop 2 l2)"
    using l1 l2 noTerminator_no_NL by (meson in_set_dropD)+
  then have r: "replaceNewlines (drop 2 l1) = drop 2 l1" "replaceNewlines (drop 2 l2) = drop 2 l2"
    by (simp_all add: replaceNewlines_id)
  have ul: "replaceNewlines ul_open = ul_open" "replaceNewlines ul_close = ul_close"
    by (rule replaceNewlines_id, simp add: ul_open_def ul_close_def lit_def NL_def)+
  have "formatText (JString (l1 @ NL # l2)) =
      Inr (replaceNewlines (ul_open @ li_open @ ?mid @ li_close @ ul_close))"
    using formatText_string[of "l1 @ NL # l2"] u w by simp
  then show ?thesis
    using r ul b1 b2 by (simp add: replaceNewlines_Cons listItem_bulleted)
qed

lemma replaceBullets_unbulleted_gen:
  assumes "bol \<longrightarrow> \<not> prefix [b, SP] t"
    and "\<forall>c. isLineTerminator c \<longrightarrow> \<not> sublist [c, b, SP] t"
  shows "replaceBullets b bol t = t"
  using assms
proof (induction t arbitrary: bol)
  case Nil
  then show ?case by simp
next
  case (Cons d ds)
  from Cons.prems(1) have no: "\<not> (bol \<and> d = b \<and> prefix [SP] ds)" by auto
  have a: "isLineTerminator d \<longrightarrow> \<not> prefix [b, SP] ds"
  proof (intro impI notI)
    assume "isLineTerminator d" "prefix [b, SP] ds"
    then have "prefix [d, b, SP] (d # ds)" by simp
    then have "sublist [d, b, SP] (d # ds)" by (rule prefix_imp_sublist)
    with Cons.prems(2) \<open>isLineTerminator d\<close> show False by blast
  qed
  have b: "\<forall>c. isLineTerminator c \<longrightarrow> \<not> sublist [c, b, SP] ds"
    using Cons.prems(2) by (meson sublist_Cons_right)
  from Cons.IH[OF a b] no show ?case by auto
qed

lemma replaceBullets_unbulleted:
  assumes "\<not> bulletedLine b t"
  shows "replaceBullets b True t = t"
proof (rule replaceBullets_unbulleted_gen)
  from assms show "True \<longrightarrow> \<not> prefix [b, SP] t" by (simp add: bulletedLine_def)
  from assms show "\<forall>c. isLineTerminator c \<longrightarrow> \<not> sublist [c, b, SP] t"
    by (auto simp: bulletedLine_def isLineTerminator_def)
qed

lemma subseq_replaceNewlines: "subseq (filter (\<lambda>c. c \<noteq> NL) s) (replaceNewlines s)"
proof (induction s)
  case Nil
  then show ?case by (simp add: replaceNewlines_def)
next
  case (Cons c cs)
  show ?case
  proof (cases "c = NL")
    case True
    with Cons show ?thesis
      by (simp add: replaceNewlines_Cons) (metis list_emb_append2)
  next
    case False
    with Cons show ?thesis by (simp add: replaceNewlines_Cons)
  qed
qed

lemma formatText_plain:
  assumes "s \<noteq> []" "\<not> bulletedLine DASH s" "\<not> bulletedLine STAR s" "\<not> sublist li_open s"
  shows "formatText (JString s) = Inr (replaceNewlines s)"
  using assms
  by (simp add: formatText_def replaceBullets_unbulleted replaceLists_no_open)

lemma replaceNewlines_ul [simp]:
  "replaceNewlines ul_open = ul_open" "replaceNewlines ul_close = ul_close"
  by (rule replaceNewlines_id, simp add: ul_open_def ul_close_def lit_def NL_def)+

lemma list_match_sublist:
  "u = pre @ li_open @ mid @ li_close @ post \<Longrightarrow> sublist li_open u"
  by (auto simp: sublist_def)

text \<open>
  Where some \<open><li>\<close> has a \<open></li>\<close> behind it, the first \<open><li>\<close> and the last
  \<open></li>\<close> are such a pair.
\<close>

lemma last_occurrence_exists:
  assumes "sublist m u"
  shows "\<exists>pre post. last_occurrence m u pre post"
proof -
  let ?S = "{j. j \<le> length u \<and> prefix m (drop j u)}"
  from assms obtain a b where ab: "u = a @ m @ b" by (auto simp: sublist_def)
  then have "length a \<in> ?S" by simp
  then have ne: "?S \<noteq> {}" by blast
  have fin: "finite ?S" by simp
  define J where "J = Max ?S"
  have J: "J \<in> ?S" unfolding J_def using fin ne by (rule Max_in)
  then obtain pre post where u: "u = pre @ m @ post" and len: "length pre = J"
    using prefix_drop_decomp[of J u m] by blast
  have "\<not> prefix m (drop j u)" if "length pre < j" "j \<le> length u" for j
  proof
    assume "prefix m (drop j u)"
    with that have "j \<in> ?S" by simp
    with fin have "j \<le> J" unfolding J_def by (rule Max_ge)
    with that len show False by simp
  qed
  with u have "last_occurrence m u pre post"
    unfolding last_occurrence_iff by blast
  then show ?thesis by blast
qed

lemma first_occurrence_exists:
  assumes "sublist m u"
  shows "\<exists>pre post. first_occurrence m u pre post"
proof -
  from assms obtain i where "indexOf u m = Some i"
    using indexOf_None_iff[of u m] by (cases "indexOf u m") auto
  then show ?thesis using indexOf_Some_first_occurrence by blast
qed

lemma list_match_first_last:
  assumes "u = pre' @ li_open @ mid' @ li_close @ post'"
  shows "\<exists>pre mid post.
     first_occurrence li_open u pre (mid @ li_close @ post) \<and>
     last_occurrence li_close u (pre @ li_open @ mid) post"
proof -
  from assms have "sublist li_open u" by (auto simp: sublist_def)
  then obtain pre r where f: "first_occurrence li_open u pre r"
    using first_occurrence_exists by blast
  from assms have "u = (pre' @ li_open @ mid') @ li_close @ post'" by simp
  then have "sublist li_close u" unfolding sublist_def by blast
  then obtain q post where l: "last_occurrence li_close u q post"
    using last_occurrence_exists by blast
  from f assms have le1: "length pre \<le> length pre'"
    unfolding first_occurrence_def by blast
  from l \<open>u = (pre' @ li_open @ mid') @ li_close @ post'\<close>
  have le2: "length (pre' @ li_open @ mid') \<le> length q"
    unfolding last_occurrence_def by blast
  from f have u1: "u = (pre @ li_open) @ r" by (simp add: first_occurrence_def)
  from l have u2: "u = q @ li_close @ post" by (simp add: last_occurrence_def)
  from le1 le2 have "length (pre @ li_open) \<le> length q" by simp
  with u1 u2 obtain mid where mid: "q = (pre @ li_open) @ mid" "r = mid @ li_close @ post"
    using append_eq_split[of "pre @ li_open" r q "li_close @ post"] by auto
  with f l show ?thesis by auto
qed

subsection \<open>The claims about the formatter\<close>

text \<open>
  What the third replacement does. Its \<open>.*\<close> is greedy and, with the \<open>s\<close> flag,
  crosses line ends, so it wraps at most one stretch of the text: when the bullet
  replacements leave no \<open><li>\<close> with a \<open></li>\<close> behind it, no list container is
  added; otherwise exactly one container is added, and it reaches from the first
  \<open><li>\<close> to the last \<open></li>\<close>, whatever lies between. For the three lines \<open>- a\<close>,
  \<open>- b\<close> and \<open>plain\<close> this is one list with the two items, then a break and the
  plain line.
\<close>

lemma formatText_one_list:
  "(t \<noteq> [] \<longrightarrow>
      formatText (JString t) = Inr (replaceNewlines (bulletLines t)) \<or>
      (\<exists>pre mid post.
         first_occurrence li_open (bulletLines t) pre (mid @ li_close @ post) \<and>
         last_occurrence li_close (bulletLines t) (pre @ li_open @ mid) post \<and>
         formatText (JString t) =
           Inr (replaceNewlines pre @ ul_open @ li_open @ replaceNewlines mid @ li_close @
                ul_close @ replaceNewlines post))) \<and>
   (t \<noteq> [] \<and> \<not> (\<exists>pre mid post. bulletLines t = pre @ li_open @ mid @ li_close @ post) \<longrightarrow>
      formatText (JString t) = Inr (replaceNewlines (bulletLines t))) \<and>
   (t \<noteq> [] \<and> first_occurrence li_open (bulletLines t) pre (mid @ li_close @ post) \<and>
      last_occurrence li_close (bulletLines t) (pre @ li_open @ mid) post \<longrightarrow>
      formatText (JString t) =
        Inr (replaceNewlines pre @ ul_open @ li_open @ replaceNewlines mid @ li_close @
             ul_close @ replaceNewlines post)) \<and>
   formatText (JString (lit ''- a'' @ [NL] @ lit ''- b'' @ [NL] @ lit ''plain'')) =
     Inr (lit ''<ul><li>a</li><br><li>b</li></ul><br>plain'')"
proof (intro conjI impI)
  assume ne: "t \<noteq> []"
  show "formatText (JString t) = Inr (replaceNewlines (bulletLines t)) \<or>
      (\<exists>pre mid post.
         first_occurrence li_open (bulletLines t) pre (mid @ li_close @ post) \<and>
         last_occurrence li_close (bulletLines t) (pre @ li_open @ mid) post \<and>
         formatText (JString t) =
           Inr (replaceNewlines pre @ ul_open @ li_open @ replaceNewlines mid @ li_close @
                ul_close @ replaceNewlines post))"
  proof (cases "\<exists>pre mid post. bulletLines t = pre @ li_open @ mid @ li_close @ post")
    case False
    then show ?thesis
      using ne replaceLists_unmatched[of "bulletLines t"] by (simp add: formatText_string)
  next
    case True
    then obtain pre mid post
      where f: "first_occurrence li_open (bulletLines t) pre (mid @ li_close @ post)"
        and l: "last_occurrence li_close (bulletLines t) (pre @ li_open @ mid) post"
      using list_match_first_last by blast
    then have "formatText (JString t) =
        Inr (replaceNewlines pre @ ul_open @ li_open @ replaceNewlines mid @ li_close @
             ul_close @ replaceNewlines post)"
      using ne replaceLists_wrap[OF f l] by (simp add: formatText_string)
    with f l show ?thesis by blast
  qed
next
  assume "t \<noteq> [] \<and> \<not> (\<exists>pre mid post. bulletLines t = pre @ li_open @ mid @ li_close @ post)"
  then show "formatText (JString t) = Inr (replaceNewlines (bulletLines t))"
    using replaceLists_unmatched[of "bulletLines t"] by (simp add: formatText_string)
next
  assume "t \<noteq> [] \<and> first_occurrence li_open (bulletLines t) pre (mid @ li_close @ post) \<and>
      last_occurrence li_close (bulletLines t) (pre @ li_open @ mid) post"
  then show "formatText (JString t) =
        Inr (replaceNewlines pre @ ul_open @ li_open @ replaceNewlines mid @ li_close @
             ul_close @ replaceNewlines post)"
    using replaceLists_wrap[of "bulletLines t" pre mid post] by (simp add: formatText_string)
next
  show "formatText (JString (lit ''- a'' @ [NL] @ lit ''- b'' @ [NL] @ lit ''plain'')) =
     Inr (lit ''<ul><li>a</li><br><li>b</li></ul><br>plain'')"
    by (simp add: formatText_def replaceNewlines_def matchList_def chars tags)
qed

text \<open>The lemma at a text without items and at a text with two items in the middle.\<close>

lemma formatText_one_list_example:
  "formatText (JString (lit ''plain'')) = Inr (lit ''plain'') \<and>
   formatText (JString (lit ''x'' @ [NL] @ lit ''- a'' @ [NL] @ lit ''* b'' @ [NL] @ lit ''plain'')) =
     Inr (lit ''x<br><ul><li>a</li><br><li>b</li></ul><br>plain'')"
proof -
  let ?t = "lit ''x'' @ [NL] @ lit ''- a'' @ [NL] @ lit ''* b'' @ [NL] @ lit ''plain''"
  let ?pre = "lit ''x'' @ [NL]"
  let ?mid = "lit ''a'' @ li_close @ [NL] @ li_open @ lit ''b''"
  let ?post = "[NL] @ lit ''plain''"
  have p: "bulletLines (lit ''plain'') = lit ''plain''"
    by (simp add: bulletLines_def chars)
  have "\<not> sublist li_open (lit ''plain'')"
    by (simp add: li_open_def lit_def sublist_code)
  with p have a: "lit ''plain'' \<noteq> [] \<and>
      \<not> (\<exists>pre mid post. bulletLines (lit ''plain'') = pre @ li_open @ mid @ li_close @ post)"
    using list_match_sublist[of "lit ''plain''"] by (auto simp: lit_def)
  have u: "bulletLines ?t = ?pre @ li_open @ ?mid @ li_close @ ?post"
    by (simp add: bulletLines_def chars tags)
  have f: "first_occurrence li_open (bulletLines ?t) ?pre (?mid @ li_close @ ?post)"
    unfolding u first_occurrence_iff by (simp add: chars tags less_Suc_eq)
  have "\<not> sublist li_close (tl li_close @ ?post)"
    by (simp add: chars tags sublist_code)
  then have l: "last_occurrence li_close (bulletLines ?t) (?pre @ li_open @ ?mid) ?post"
    unfolding u by (intro last_occurrenceI) (simp_all add: li_close_nonempty)
  have ne: "?t \<noteq> []" by (simp add: lit_def)
  have 1: "formatText (JString (lit ''plain'')) = Inr (replaceNewlines (bulletLines (lit ''plain'')))"
    using formatText_one_list[of "lit ''plain''"] a by blast
  have 2: "formatText (JString ?t) =
        Inr (replaceNewlines ?pre @ ul_open @ li_open @ replaceNewlines ?mid @ li_close @
             ul_close @ replaceNewlines ?post)"
    using formatText_one_list[of ?t ?pre ?mid ?post] ne f l by blast
  show ?thesis
    unfolding 1 2 p by (simp add: replaceNewlines_def chars tags)
qed

text \<open>
  Claim C2: every maximal run of adjacent list items is wrapped once, as a list
  container of its own, and runs that a plain line separates get separate
  containers. The code attempts this with a global replacement that wraps what
  reaches from a \<open><li>\<close> to a \<open></li>\<close>, and misses it: of the three lines \<open>- a\<close>,
  \<open>plain\<close> and \<open>- b\<close>, two runs of one item each, it makes a single container that
  holds both items and the plain line between them. The claim's own example, two
  items and then a plain line, has one run only and comes out as the claim says, but
  for the break between the two items.
\<close>

theorem formatText_separate_runs:
  "formatText (JString (lit ''- a'' @ [NL] @ lit ''plain'' @ [NL] @ lit ''- b'')) =
     Inr (lit ''<ul><li>a</li><br>plain<br><li>b</li></ul>'') \<and>
   formatText (JString (lit ''- a'' @ [NL] @ lit ''- b'' @ [NL] @ lit ''plain'')) =
     Inr (lit ''<ul><li>a</li><br><li>b</li></ul><br>plain'')"
  by (simp add: formatText_def replaceNewlines_def matchList_def chars tags)

text \<open>
  Claim C4, as the code has it. Line by line, a line that begins with \<open>- \<close> or \<open>* \<close>
  becomes a list item that holds the rest of the line, and the line terminators stay
  where they are. The first three replacements keep every newline of the text, and
  the last one turns each of them into \<open><br>\<close> and changes nothing else. So the
  newline between two adjacent list items becomes a \<open><br>\<close> between the items,
  inside the list.
\<close>

theorem formatText_items_and_breaks:
  "(noTerminator l \<longrightarrow> bulletLines l = listItem l) \<and>
   (noTerminator l \<and> isLineTerminator c \<longrightarrow>
      bulletLines (l @ c # rest) = listItem l @ c # bulletLines rest) \<and>
   (t \<noteq> [] \<longrightarrow>
      formatText (JString t) = Inr (replaceNewlines (replaceLists (bulletLines t))) \<and>
      count_list (replaceLists (bulletLines t)) NL = count_list t NL) \<and>
   replaceNewlines (x @ NL # y) = replaceNewlines x @ br_tag @ replaceNewlines y \<and>
   (NL \<notin> set x \<longrightarrow> replaceNewlines x = x) \<and>
   (noTerminator l1 \<and> noTerminator l2 \<and> bulleted l1 \<and> bulleted l2 \<longrightarrow>
      formatText (JString (l1 @ NL # l2)) =
        Inr (ul_open @ listItem l1 @ br_tag @ listItem l2 @ ul_close))"
  using bullets_last_line[of l] bullets_line[of l c rest] formatText_string[of t]
    count_NL_replaceLists[of "bulletLines t"] count_NL_bulletLines[of t]
    replaceNewlines_id[of x] adjacent_items[of l1 l2]
  by (simp add: bulletLines_def replaceNewlines_Cons)

text \<open>The theorem at a single item, at an item before a plain line and at two items.\<close>

theorem formatText_items_and_breaks_witness:
  "bulletLines (lit ''* sign here'') = lit ''<li>sign here</li>'' \<and>
   bulletLines (lit ''- a'' @ NL # lit ''b'') = lit ''<li>a</li>'' @ NL # bulletLines (lit ''b'') \<and>
   formatText (JString (lit ''- a'' @ NL # lit ''* b'')) =
     Inr (lit ''<ul><li>a</li><br><li>b</li></ul>'') \<and>
   count_list (replaceLists (bulletLines (lit ''a'' @ NL # lit ''b''))) NL = 1"
proof -
  have n: "noTerminator (lit ''* sign here'')" "noTerminator (lit ''- a'')"
    "noTerminator (lit ''* b'')" "isLineTerminator NL"
    by (simp_all add: chars)
  have b: "bulleted (lit ''- a'')" "bulleted (lit ''* b'')"
    by (simp_all add: bulleted_def lit_def)
  have ne: "lit ''a'' @ NL # lit ''b'' \<noteq> []" by (simp add: lit_def)
  have 1: "bulletLines (lit ''* sign here'') = listItem (lit ''* sign here'')"
    using formatText_items_and_breaks[of "lit ''* sign here''"] n by blast
  have 2: "bulletLines (lit ''- a'' @ NL # lit ''b'') =
      listItem (lit ''- a'') @ NL # bulletLines (lit ''b'')"
    using formatText_items_and_breaks[of "lit ''- a''" NL "lit ''b''"] n by blast
  have 3: "formatText (JString (lit ''- a'' @ NL # lit ''* b'')) =
      Inr (ul_open @ listItem (lit ''- a'') @ br_tag @ listItem (lit ''* b'') @ ul_close)"
    using formatText_items_and_breaks[of _ _ _ _ _ _ "lit ''- a''" "lit ''* b''"] n b by blast
  have 4: "count_list (replaceLists (bulletLines (lit ''a'' @ NL # lit ''b''))) NL =
      count_list (lit ''a'' @ NL # lit ''b'') NL"
    using formatText_items_and_breaks[of _ _ _ "lit ''a'' @ NL # lit ''b''"] ne by blast
  show ?thesis
    unfolding 1 2 3 4 by (simp add: listItem_def chars tags)
qed

text \<open>
  Claim C4 as stated keeps the newlines between adjacent list items out of the break
  markers. The newline between the two items comes back as \<open><br>\<close> inside the list.
\<close>

theorem break_between_items_counterexample:
  "formatText (JString (lit ''- a'' @ [NL] @ lit ''- b'')) =
     Inr (lit ''<ul><li>a</li><br><li>b</li></ul>'')"
  by (simp add: formatText_def replaceNewlines_def matchList_def chars tags)

text \<open>The sentinel has no bullet, no list item and no newline.\<close>

lemma formatText_of_sentinel: "formatText (JString sentinel) = Inr sentinel"
  by (simp add: formatText_def sentinel_def replaceNewlines_def matchList_def chars tags)

lemma renderSection_absent:
  "\<not> sublist startMarker t \<Longrightarrow>
     renderSection (JString t) startMarker endMarker = Inr sentinel"
  by (simp add: renderSection_def extractSection_absent formatText_of_sentinel)

text \<open>
  Claim C7, as the code has it. A section whose extracted content is not empty, has no
  bulleted line and no \<open><li>\<close> is rendered as that content with every newline replaced
  by \<open><br>\<close>: every other character of the content is in the output, in order. A
  section whose marker does not occur in the text is rendered as the sentinel, and a
  text with none of the four markers is displayed as four sentinels.
\<close>

theorem render_plain_section:
  "(extractSection (JString t) startMarker endMarker = Inr s \<and> s \<noteq> [] \<and>
    \<not> bulletedLine DASH s \<and> \<not> bulletedLine STAR s \<and> \<not> sublist li_open s \<longrightarrow>
      renderSection (JString t) startMarker endMarker = Inr (replaceNewlines s) \<and>
      subseq (filter (\<lambda>c. c \<noteq> NL) s) (replaceNewlines s)) \<and>
   (\<not> sublist startMarker t \<longrightarrow>
      renderSection (JString t) startMarker endMarker = Inr sentinel) \<and>
   (property analysisResult ''analysis'' = Some (JVal (JString t)) \<and>
    \<not> sublist KEY_IMPORTANT_POINTS t \<and> \<not> sublist SUSPICIOUS_ELEMENTS t \<and>
    \<not> sublist RISK_ASSESSMENT t \<and> \<not> sublist RECOMMENDATIONS t \<longrightarrow>
      displayResults analysisResult =
        Inr \<lparr>keyPoints = sentinel, suspicious = sentinel, risk = sentinel,
             recommendations = sentinel,
             document = property analysisResult ''fileName''\<rparr>)"
proof (intro conjI impI)
  assume "extractSection (JString t) startMarker endMarker = Inr s \<and> s \<noteq> [] \<and>
    \<not> bulletedLine DASH s \<and> \<not> bulletedLine STAR s \<and> \<not> sublist li_open s"
  then show "renderSection (JString t) startMarker endMarker = Inr (replaceNewlines s)"
    using formatText_plain[of s] by (simp add: renderSection_def)
next
  show "subseq (filter (\<lambda>c. c \<noteq> NL) s) (replaceNewlines s)"
    by (rule subseq_replaceNewlines)
next
  assume "\<not> sublist startMarker t"
  then show "renderSection (JString t) startMarker endMarker = Inr sentinel"
    by (rule renderSection_absent)
next
  assume "property analysisResult ''analysis'' = Some (JVal (JString t)) \<and>
    \<not> sublist KEY_IMPORTANT_POINTS t \<and> \<not> sublist SUSPICIOUS_ELEMENTS t \<and>
    \<not> sublist RISK_ASSESSMENT t \<and> \<not> sublist RECOMMENDATIONS t"
  then show "displayResults analysisResult =
        Inr \<lparr>keyPoints = sentinel, suspicious = sentinel, risk = sentinel,
             recommendations = sentinel,
             document = property analysisResult ''fileName''\<rparr>"
    by (simp add: displayResults_def renderSections_def renderSection_absent)
qed

text \<open>
  The theorem at a last section of two plain lines, at a text without the marker and
  at a response whose text has no marker at all.
\<close>

theorem render_plain_section_witness:
  "renderSection (JString (lit ''RECOMMENDATIONS: sign'' @ NL # lit ''and date ''))
     RECOMMENDATIONS JNull = Inr (lit '': sign<br>and date'') \<and>
   renderSection (JString (lit ''Low risk'')) RECOMMENDATIONS JNull = Inr sentinel \<and>
   displayResults [(''analysis'', JVal (JString (lit ''Low risk''))),
                   (''fileName'', JVal (JString (lit ''lease.pdf'')))] =
     Inr \<lparr>keyPoints = sentinel, suspicious = sentinel, risk = sentinel,
          recommendations = sentinel,
          document = Some (JVal (JString (lit ''lease.pdf'')))\<rparr>"
proof -
  let ?t = "lit ''RECOMMENDATIONS: sign'' @ NL # lit ''and date ''"
  let ?s = "lit '': sign'' @ NL # lit ''and date''"
  let ?u = "lit ''Low risk''"
  let ?r = "[(''analysis'', JVal (JString ?u)), (''fileName'', JVal (JString (lit ''lease.pdf'')))]"
  have e: "extractSection (JString ?t) RECOMMENDATIONS JNull = Inr ?s"
    by (simp add: extractSection_def indexOf_def indexOfFrom_def substring_def trim_def
        RECOMMENDATIONS_def chars)
  have ne: "?s \<noteq> []" by (simp add: lit_def)
  have d: "\<not> bulletedLine DASH ?s" "\<not> bulletedLine STAR ?s"
    by (simp_all add: bulletedLine_def chars sublist_code)
  have o: "\<not> sublist li_open ?s"
    by (simp add: chars tags sublist_code)
  have m: "\<not> sublist KEY_IMPORTANT_POINTS ?u" "\<not> sublist SUSPICIOUS_ELEMENTS ?u"
    "\<not> sublist RISK_ASSESSMENT ?u" "\<not> sublist RECOMMENDATIONS ?u"
    by (simp_all add: KEY_IMPORTANT_POINTS_def SUSPICIOUS_ELEMENTS_def RISK_ASSESSMENT_def
        RECOMMENDATIONS_def lit_def sublist_code)
  have p: "property ?r ''analysis'' = Some (JVal (JString ?u))"
    "property ?r ''fileName'' = Some (JVal (JString (lit ''lease.pdf'')))"
    by (simp_all add: property_def)
  have 1: "renderSection (JString ?t) RECOMMENDATIONS JNull = Inr (replaceNewlines ?s)"
    using render_plain_section[of ?t RECOMMENDATIONS JNull ?s] e ne d o by blast
  have 2: "renderSection (JString ?u) RECOMMENDATIONS JNull = Inr sentinel"
    using render_plain_section[of ?u RECOMMENDATIONS JNull] m by blast
  have 3: "displayResults ?r =
      Inr \<lparr>keyPoints = sentinel, suspicious = sentinel, risk = sentinel,
           recommendations = sentinel, document = property ?r ''fileName''\<rparr>"
    using render_plain_section[of ?u _ _ _ ?r] p m by blast
  show ?thesis
    unfolding 1 2 3 p by (simp add: replaceNewlines_def chars tags)
qed

text \<open>
  Claim C7 as stated promises that a text without markers loses no character. Without
  markers every extraction returns the sentinel, and the four sections show the
  sentinel only: the \<open>7\<close> of the text, which is neither a marker nor whitespace, is
  not in the output.
\<close>

theorem no_markers_counterexample:
  "displayResults [(''analysis'', JVal (JString (lit ''Clause 7''))),
                   (''fileName'', JVal (JString (lit ''lease.pdf'')))] =
     Inr \<lparr>keyPoints = sentinel, suspicious = sentinel, risk = sentinel,
          recommendations = sentinel,
          document = Some (JVal (JString (lit ''lease.pdf'')))\<rparr> \<and>
   \<not> bulletedLine DASH (lit ''Clause 7'') \<and> \<not> bulletedLine STAR (lit ''Clause 7'') \<and>
   0x37 \<in> set (lit ''Clause 7'') \<and> 0x37 \<notin> set sentinel"
  by code_simp

text \<open>
  Claim C6: on a string, \<open>extractSection\<close> and \<open>formatText\<close> return a string and raise
  nothing, whatever the markers are. Both are total functions of the model: every
  loop of the code is a terminating recursion. On degenerate input they fall back: a
  text without the start marker gives the sentinel, the empty text is formatted to the
  sentinel, and a text without bullets, list items and newlines is formatted to
  itself.
\<close>

theorem extractSection_formatText_total:
  "(\<exists>r. extractSection (JString text) startMarker endMarker = Inr r) \<and>
   (\<exists>r. formatText (JString text) = Inr r) \<and>
   (\<not> sublist startMarker text \<longrightarrow>
      extractSection (JString text) startMarker endMarker = Inr sentinel) \<and>
   formatText (JString []) = Inr sentinel \<and>
   (text \<noteq> [] \<and> \<not> bulletedLine DASH text \<and> \<not> bulletedLine STAR text \<and>
      \<not> sublist li_open text \<and> NL \<notin> set text \<longrightarrow>
      formatText (JString text) = Inr text)"
proof (intro conjI impI)
  show "\<exists>r. extractSection (JString text) startMarker endMarker = Inr r"
    by (simp add: extractSection_def Let_def split: option.split)
  show "\<exists>r. formatText (JString text) = Inr r"
    by (simp add: formatText_def)
  show "formatText (JString []) = Inr sentinel"
    by (simp add: formatText_def)
next
  assume "\<not> sublist startMarker text"
  then show "extractSection (JString text) startMarker endMarker = Inr sentinel"
    by (rule extractSection_absent)
next
  assume "text \<noteq> [] \<and> \<not> bulletedLine DASH text \<and> \<not> bulletedLine STAR text \<and>
      \<not> sublist li_open text \<and> NL \<notin> set text"
  then show "formatText (JString text) = Inr text"
    using formatText_plain[of "text"] replaceNewlines_id[of "text"] by simp
qed

text \<open>The theorem at a text without markers, bullets and newlines.\<close>

theorem extractSection_formatText_total_witness:
  "extractSection (JString (lit ''Low risk'')) RISK_ASSESSMENT (JString RECOMMENDATIONS) =
     Inr sentinel \<and>
   formatText (JString (lit ''Low risk'')) = Inr (lit ''Low risk'')"
proof -
  let ?t = "lit ''Low risk''"
  have a: "\<not> sublist RISK_ASSESSMENT ?t"
    by (simp add: RISK_ASSESSMENT_def lit_def sublist_code)
  have b: "?t \<noteq> [] \<and> \<not> bulletedLine DASH ?t \<and> \<not> bulletedLine STAR ?t \<and>
      \<not> sublist li_open ?t \<and> NL \<notin> set ?t"
    by (simp add: bulletedLine_def chars tags sublist_code)
  show ?thesis
    using extractSection_formatText_total[of ?t RISK_ASSESSMENT "JString RECOMMENDATIONS"] a b
    by blast
qed

section \<open>The server's responses\<close>

text \<open>
  Claim C10: a request that reaches the handler without a file is answered with status
  400 and \<open>{ success: false, error: "No file uploaded" }\<close>; the AI service is not
  called. The API key is not looked at before, so this holds in every environment,
  also without a key.
\<close>

theorem analyzeRoute_no_file:
  "analyzeRoute env None =
     \<lparr>responses =
        [\<lparr>status = 400,
          body = JObject [(''success'', JVal (JBool False)),
                          (''error'', JVal (JString (lit ''No file uploaded'')))]\<rparr>],
      aiCalls = [], unlinked = []\<rparr> \<and>
   postAnalyze env None = analyzeRoute env None"
  by (simp add: analyzeRoute_def postAnalyze_def upload_def failure_def)

subsection \<open>The handler\<close>

lemma analyzeLegalDocument_cases:
  "(\<exists>msg calls. analyzeLegalDocument env filePath originalName = (Inl (Error msg), calls)) \<or>
   (\<exists>analysis mimeType fileBuffer.
      generateContent env mimeType fileBuffer = Inr analysis \<and>
      analyzeLegalDocument env filePath originalName =
      (Inr (JObject [(''analysis'', JVal (JString analysis)),
                     (''fileName'', JVal (JString originalName)),
                     (''fileType'', JVal (JString (toLowerCase env (extname env originalName)))),
                     (''timestamp'', JVal (JString (now env))),
                     (''success'', JVal (JBool True))]), [(mimeType, fileBuffer)]))"
  by (auto simp: analyzeLegalDocument_def generate_def analysisFailed_def Let_def
      split: sum.splits)

lemma analyzeLegalDocument_pdf:
  assumes "readFileSync env filePath = Inr fileBuffer"
    and "toLowerCase env (extname env originalName) = lit ''.pdf''"
    and "generateContent env (lit ''application/pdf'') fileBuffer = Inr analysis"
  shows "analyzeLegalDocument env filePath originalName =
      (Inr (JObject [(''analysis'', JVal (JString analysis)),
                     (''fileName'', JVal (JString originalName)),
                     (''fileType'', JVal (JString (lit ''.pdf''))),
                     (''timestamp'', JVal (JString (now env))),
                     (''success'', JVal (JBool True))]),
       [(lit ''application/pdf'', fileBuffer)])"
  using assms by (simp add: analyzeLegalDocument_def generate_def Let_def)

lemma image_not_pdf:
  "ext \<in> set [lit ''.jpg'', lit ''.jpeg'', lit ''.png''] \<Longrightarrow> ext \<noteq> lit ''.pdf''"
  by (auto simp: lit_def)

lemma analyzeLegalDocument_image:
  assumes "readFileSync env filePath = Inr fileBuffer"
    and "toLowerCase env (extname env originalName) = ext"
    and "ext \<in> set [lit ''.jpg'', lit ''.jpeg'', lit ''.png'']"
    and "generateContent env (getImageMimeType ext) fileBuffer = Inr analysis"
  shows "analyzeLegalDocument env filePath originalName =
      (Inr (JObject [(''analysis'', JVal (JString analysis)),
                     (''fileName'', JVal (JString originalName)),
                     (''fileType'', JVal (JString ext)),
                     (''timestamp'', JVal (JString (now env))),
                     (''success'', JVal (JBool True))]),
       [(getImageMimeType ext, fileBuffer)])"
proof -
  from assms(3) have "ext \<noteq> lit ''.pdf''" by (rule image_not_pdf)
  with assms show ?thesis
    by (simp add: analyzeLegalDocument_def generate_def Let_def)
qed

lemma analyzeRoute_one_response:
  "\<exists>r. responses (analyzeRoute env uploaded) = [r] \<and>
     (if status r = 200 then
        \<exists>f analysis mimeType fileBuffer. uploaded = Some f \<and>
          generateContent env mimeType fileBuffer = Inr analysis \<and>
          aiCalls (analyzeRoute env uploaded) = [(mimeType, fileBuffer)] \<and>
          body r = JObject [(''analysis'', JVal (JString analysis)),
                            (''fileName'', JVal (JString (originalname f))),
                            (''fileType'',
                               JVal (JString (toLowerCase env (extname env (originalname f))))),
                            (''timestamp'', JVal (JString (now env))),
                            (''success'', JVal (JBool True))]
      else
        (status r = 400 \<or> status r = 500) \<and>
        (\<exists>msg. body r = JObject [(''success'', JVal (JBool False)),
                                  (''error'', JVal (JString msg))]))"
proof (cases uploaded)
  case None
  then show ?thesis by (simp add: analyzeRoute_def failure_def)
next
  case (Some f)
  show ?thesis
  proof (cases "truthy (GEMINI_API_KEY env)")
    case False
    with Some show ?thesis by (simp add: analyzeRoute_def failure_def)
  next
    case True
    with Some analyzeLegalDocument_cases[of env "path f" "originalname f"]
    show ?thesis
      by (auto simp: analyzeRoute_def failure_def)
  qed
qed

text \<open>
  Claim C8, as the code has it, for a request whose file has reached the handler. The
  handler sends one response. When the key is configured, the file can be read, its
  extension is one of the four the analysis knows and the AI service answers, the
  response has status 200 and carries the object built by \<open>analyzeLegalDocument\<close>: the
  text of the AI service in the field \<open>analysis\<close>, then \<open>fileName\<close>, \<open>fileType\<close>,
  \<open>timestamp\<close> and \<open>success: true\<close>. A response of status 200 is always of this
  kind, its text the answer to the one call made to the service. Every other response
  has status 400 or 500 and the body \<open>{ success: false, error: message }\<close>.
\<close>

theorem analyzeRoute_response_shape:
  "(\<exists>r. responses (analyzeRoute env uploaded) = [r] \<and>
     (if status r = 200 then
        \<exists>f analysis mimeType fileBuffer. uploaded = Some f \<and>
          generateContent env mimeType fileBuffer = Inr analysis \<and>
          aiCalls (analyzeRoute env uploaded) = [(mimeType, fileBuffer)] \<and>
          body r = JObject [(''analysis'', JVal (JString analysis)),
                            (''fileName'', JVal (JString (originalname f))),
                            (''fileType'',
                               JVal (JString (toLowerCase env (extname env (originalname f))))),
                            (''timestamp'', JVal (JString (now env))),
                            (''success'', JVal (JBool True))]
      else
        (status r = 400 \<or> status r = 500) \<and>
        (\<exists>msg. body r = JObject [(''success'', JVal (JBool False)),
                                  (''error'', JVal (JString msg))]))) \<and>
   (truthy (GEMINI_API_KEY env) \<and> readFileSync env (path f) = Inr fileBuffer \<and>
    toLowerCase env (extname env (originalname f)) = lit ''.pdf'' \<and>
    generateContent env (lit ''application/pdf'') fileBuffer = Inr analysis \<longrightarrow>
      analyzeRoute env (Some f) =
        \<lparr>responses =
           [\<lparr>status = 200,
             body = JObject [(''analysis'', JVal (JString analysis)),
                             (''fileName'', JVal (JString (originalname f))),
                             (''fileType'', JVal (JString (lit ''.pdf''))),
                             (''timestamp'', JVal (JString (now env))),
                             (''success'', JVal (JBool True))]\<rparr>],
         aiCalls = [(lit ''application/pdf'', fileBuffer)],
         unlinked = [path f]\<rparr>) \<and>
   (truthy (GEMINI_API_KEY env) \<and> readFileSync env (path f) = Inr fileBuffer \<and>
    toLowerCase env (extname env (originalname f)) = ext \<and>
    ext \<in> set [lit ''.jpg'', lit ''.jpeg'', lit ''.png''] \<and>
    generateContent env (getImageMimeType ext) fileBuffer = Inr analysis \<longrightarrow>
      analyzeRoute env (Some f) =
        \<lparr>responses =
           [\<lparr>status = 200,
             body = JObject [(''analysis'', JVal (JString analysis)),
                             (''fileName'', JVal (JString (originalname f))),
                             (''fileType'', JVal (JString ext)),
                             (''timestamp'', JVal (JString (now env))),
                             (''success'', JVal (JBool True))]\<rparr>],
         aiCalls = [(getImageMimeType ext, fileBuffer)],
         unlinked = [path f]\<rparr>)"
proof (intro conjI impI)
  show "\<exists>r. responses (analyzeRoute env uploaded) = [r] \<and>
     (if status r = 200 then
        \<exists>f analysis mimeType fileBuffer. uploaded = Some f \<and>
          generateContent env mimeType fileBuffer = Inr analysis \<and>
          aiCalls (analyzeRoute env uploaded) = [(mimeType, fileBuffer)] \<and>
          body r = JObject [(''analysis'', JVal (JString analysis)),
                            (''fileName'', JVal (JString (originalname f))),
                            (''fileType'',
                               JVal (JString (toLowerCase env (extname env (originalname f))))),
                            (''timestamp'', JVal (JString (now env))),
                            (''success'', JVal (JBool True))]
      else
        (status r = 400 \<or> status r = 500) \<and>
        (\<exists>msg. body r = JObject [(''success'', JVal (JBool False)),
                                  (''error'', JVal (JString msg))]))"
    by (rule analyzeRoute_one_response)
next
  assume "truthy (GEMINI_API_KEY env) \<and> readFileSync env (path f) = Inr fileBuffer \<and>
    toLowerCase env (extname env (originalname f)) = lit ''.pdf'' \<and>
    generateContent env (lit ''application/pdf'') fileBuffer = Inr analysis"
  then show "analyzeRoute env (Some f) =
        \<lparr>responses =
           [\<lparr>status = 200,
             body = JObject [(''analysis'', JVal (JString analysis)),
                             (''fileName'', JVal (JString (originalname f))),
                             (''fileType'', JVal (JString (lit ''.pdf''))),
                             (''timestamp'', JVal (JString (now env))),
                             (''success'', JVal (JBool True))]\<rparr>],
         aiCalls = [(lit ''application/pdf'', fileBuffer)],
         unlinked = [path f]\<rparr>"
    using analyzeLegalDocument_pdf[of env "path f" fileBuffer "originalname f" analysis]
    by (simp add: analyzeRoute_def)
next
  assume "truthy (GEMINI_API_KEY env) \<and> readFileSync env (path f) = Inr fileBuffer \<and>
    toLowerCase env (extname env (originalname f)) = ext \<and>
    ext \<in> set [lit ''.jpg'', lit ''.jpeg'', lit ''.png''] \<and>
    generateContent env (getImageMimeType ext) fileBuffer = Inr analysis"
  then show "analyzeRoute env (Some f) =
        \<lparr>responses =
           [\<lparr>status = 200,
             body = JObject [(''analysis'', JVal (JString analysis)),
                             (''fileName'', JVal (JString (originalname f))),
                             (''fileType'', JVal (JString ext)),
                             (''timestamp'', JVal (JString (now env))),
                             (''success'', JVal (JBool True))]\<rparr>],
         aiCalls = [(getImageMimeType ext, fileBuffer)],
         unlinked = [path f]\<rparr>"
    using analyzeLegalDocument_image[of env "path f" fileBuffer "originalname f" ext analysis]
    by (simp add: analyzeRoute_def)
qed

lemmas example_defs = exampleEnv_def leasePdf_def scanPng_def bigPdf_def bigExe_def

lemmas server_defs =
  postAnalyze_def upload_def fileFilter_def allowedTypes_def fileSize_def analyzeRoute_def
  errorMiddleware_def analyzeLegalDocument_def generate_def getImageMimeType_def
  analysisFailed_def failure_def messageOrDefault_def indexOf_def indexOfFrom_def
  destination_def Let_def

text \<open>The theorem at the small PDF and at the PNG, handed to the handler.\<close>

theorem analyzeRoute_response_shape_witness:
  "analyzeRoute exampleEnv (Some leasePdf) =
     \<lparr>responses =
        [\<lparr>status = 200,
          body = JObject [(''analysis'', JVal (JString (lit ''RISK ASSESSMENT: Low''))),
                          (''fileName'', JVal (JString (lit ''lease.pdf''))),
                          (''fileType'', JVal (JString (lit ''.pdf''))),
                          (''timestamp'', JVal (JString (lit ''2024-01-01T00:00:00.000Z''))),
                          (''success'', JVal (JBool True))]\<rparr>],
      aiCalls = [(lit ''application/pdf'', [0x25, 0x50, 0x44, 0x46])],
      unlinked = [lit ''uploads/document-1.pdf'']\<rparr> \<and>
   analyzeRoute exampleEnv (Some scanPng) =
     \<lparr>responses =
        [\<lparr>status = 200,
          body = JObject [(''analysis'', JVal (JString (lit ''RISK ASSESSMENT: Low''))),
                          (''fileName'', JVal (JString (lit ''scan.png''))),
                          (''fileType'', JVal (JString (lit ''.png''))),
                          (''timestamp'', JVal (JString (lit ''2024-01-01T00:00:00.000Z''))),
                          (''success'', JVal (JBool True))]\<rparr>],
      aiCalls = [(lit ''image/png'', [0x25, 0x50, 0x44, 0x46])],
      unlinked = [lit ''uploads/document-4.png'']\<rparr>"
proof -
  have a: "truthy (GEMINI_API_KEY exampleEnv) \<and>
      readFileSync exampleEnv (path leasePdf) = Inr [0x25, 0x50, 0x44, 0x46] \<and>
      toLowerCase exampleEnv (extname exampleEnv (originalname leasePdf)) = lit ''.pdf'' \<and>
      generateContent exampleEnv (lit ''application/pdf'') [0x25, 0x50, 0x44, 0x46] =
        Inr (lit ''RISK ASSESSMENT: Low'')"
    by (simp add: example_defs lit_def)
  have b: "truthy (GEMINI_API_KEY exampleEnv) \<and>
      readFileSync exampleEnv (path scanPng) = Inr [0x25, 0x50, 0x44, 0x46] \<and>
      toLowerCase exampleEnv (extname exampleEnv (originalname scanPng)) = lit ''.png'' \<and>
      lit ''.png'' \<in> set [lit ''.jpg'', lit ''.jpeg'', lit ''.png''] \<and>
      generateContent exampleEnv (getImageMimeType (lit ''.png'')) [0x25, 0x50, 0x44, 0x46] =
        Inr (lit ''RISK ASSESSMENT: Low'')"
    by (simp add: example_defs lit_def)
  have 1: "analyzeRoute exampleEnv (Some leasePdf) =
        \<lparr>responses =
           [\<lparr>status = 200,
             body = JObject [(''analysis'', JVal (JString (lit ''RISK ASSESSMENT: Low''))),
                             (''fileName'', JVal (JString (originalname leasePdf))),
                             (''fileType'', JVal (JString (lit ''.pdf''))),
                             (''timestamp'', JVal (JString (now exampleEnv))),
                             (''success'', JVal (JBool True))]\<rparr>],
         aiCalls = [(lit ''application/pdf'', [0x25, 0x50, 0x44, 0x46])],
         unlinked = [path leasePdf]\<rparr>"
    using analyzeRoute_response_shape[of exampleEnv _ leasePdf "[0x25, 0x50, 0x44, 0x46]"
        "lit ''RISK ASSESSMENT: Low''"] a
    by blast
  have 2: "analyzeRoute exampleEnv (Some scanPng) =
        \<lparr>responses =
           [\<lparr>status = 200,
             body = JObject [(''analysis'', JVal (JString (lit ''RISK ASSESSMENT: Low''))),
                             (''fileName'', JVal (JString (originalname scanPng))),
                             (''fileType'', JVal (JString (lit ''.png''))),
                             (''timestamp'', JVal (JString (now exampleEnv))),
                             (''success'', JVal (JBool True))]\<rparr>],
         aiCalls = [(getImageMimeType (lit ''.png''), [0x25, 0x50, 0x44, 0x46])],
         unlinked = [path scanPng]\<rparr>"
    using analyzeRoute_response_shape[of exampleEnv _ scanPng "[0x25, 0x50, 0x44, 0x46]"
        "lit ''RISK ASSESSMENT: Low''" "lit ''.png''"] b
    by blast
  show ?thesis
    unfolding 1 2 by (simp add: example_defs getImageMimeType_def lit_def)
qed

text \<open>
  Claim C8 as stated names the field \<open>analysisText\<close>. The object that
  \<open>analyzeLegalDocument\<close> returns on success has no such property: the text is in
  \<open>analysis\<close>, which is also what \<open>displayResults\<close> reads. Given a body of the claimed
  shape, \<open>displayResults\<close> would read \<open>undefined\<close> and \<open>extractSection\<close> would throw.
\<close>

theorem analysisText_counterexample:
  "analyzeLegalDocument exampleEnv (lit ''uploads/document-1.pdf'') (lit ''lease.pdf'') =
     (Inr (JObject [(''analysis'', JVal (JString (lit ''RISK ASSESSMENT: Low''))),
                    (''fileName'', JVal (JString (lit ''lease.pdf''))),
                    (''fileType'', JVal (JString (lit ''.pdf''))),
                    (''timestamp'', JVal (JString (lit ''2024-01-01T00:00:00.000Z''))),
                    (''success'', JVal (JBool True))]),
      [(lit ''application/pdf'', [0x25, 0x50, 0x44, 0x46])]) \<and>
   property [(''analysis'', JVal (JString (lit ''RISK ASSESSMENT: Low''))),
             (''fileName'', JVal (JString (lit ''lease.pdf''))),
             (''fileType'', JVal (JString (lit ''.pdf''))),
             (''timestamp'', JVal (JString (lit ''2024-01-01T00:00:00.000Z''))),
             (''success'', JVal (JBool True))] ''analysisText'' = None \<and>
   displayResults [(''analysisText'', JVal (JString (lit ''RISK ASSESSMENT: Low''))),
                   (''fileName'', JVal (JString (lit ''lease.pdf''))),
                   (''success'', JVal (JBool True))] = Inl TypeError"
  by (simp add: server_defs example_defs property_def displayResults_def renderSections_def
      renderSection_def extractSection_def lit_def)

subsection \<open>The upload in front of the handler\<close>

text \<open>
  A file the filter accepts never gets as far as the size limit or the handler: the
  \<open>destination\<close> callback throws, nothing is sent and the AI service is not called. A
  file the filter turns down goes to the error middleware with the filter's error,
  which is a plain \<open>Error\<close>, and is answered with status 500.
\<close>

lemma destination_throws: "destination = Inl TypeError"
  by (simp add: destination_def)

lemma accepted_upload_uncaught:
  "fileFilter env file = Inr True \<Longrightarrow>
     postAnalyze env (Some file) = \<lparr>responses = [], aiCalls = [], unlinked = []\<rparr>"
  by (simp add: postAnalyze_def upload_def destination_throws)

lemma fileFilter_cases:
  "fileFilter env file = Inr True \<or>
   fileFilter env file = Inl (Error (lit ''Only PDF and image files are allowed!''))"
  by (simp add: fileFilter_def Let_def)

lemma rejected_upload_500:
  "fileFilter env file = Inl err \<Longrightarrow>
     postAnalyze env (Some file) =
       \<lparr>responses =
          [\<lparr>status = 500,
            body = failure (lit ''Only PDF and image files are allowed!'')\<rparr>],
        aiCalls = [], unlinked = []\<rparr>"
  using fileFilter_cases[of env "file"]
  by (auto simp: postAnalyze_def upload_def errorMiddleware_def messageOrDefault_def lit_def)

text \<open>
  Claim C9: a file above the limit of 10 MiB is answered once, with a 400-class error
  body, and the AI service is not called. The code attempts this: multer is given the
  limit, and the error middleware answers the size error that multer would report
  with status 400. But no uploaded file is ever answered so. Whatever the file, the
  server sends nothing or sends status 500, and never calls the AI service; the PDF
  of 11 MiB, which the filter accepts, gets no response at all, because the
  \<open>destination\<close> callback throws before a byte of the file is counted.
\<close>

theorem oversize_upload_no_response:
  "(responses (postAnalyze env (Some file)) = [] \<or>
    responses (postAnalyze env (Some file)) =
      [\<lparr>status = 500, body = failure (lit ''Only PDF and image files are allowed!'')\<rparr>]) \<and>
   aiCalls (postAnalyze env (Some file)) = [] \<and>
   fileFilter exampleEnv bigPdf = Inr True \<and> fileSize < size_bytes bigPdf \<and>
   postAnalyze exampleEnv (Some bigPdf) = \<lparr>responses = [], aiCalls = [], unlinked = []\<rparr> \<and>
   errorMiddleware (MulterError ''LIMIT_FILE_SIZE'' msg) =
     \<lparr>responses =
        [\<lparr>status = 400,
          body = JObject [(''success'', JVal (JBool False)),
                          (''error'',
                             JVal (JString (lit ''File too large. Maximum size is 10MB.'')))]\<rparr>],
      aiCalls = [], unlinked = []\<rparr>"
proof -
  have a: "fileFilter exampleEnv bigPdf = Inr True"
    by (simp add: fileFilter_def allowedTypes_def indexOf_def indexOfFrom_def example_defs
        lit_def)
  have b: "fileSize < size_bytes bigPdf"
    by (simp add: fileSize_def bigPdf_def)
  have c: "responses (postAnalyze env (Some file)) = [] \<or>
      responses (postAnalyze env (Some file)) =
        [\<lparr>status = 500, body = failure (lit ''Only PDF and image files are allowed!'')\<rparr>]"
    using fileFilter_cases[of env "file"] accepted_upload_uncaught[of env "file"]
      rejected_upload_500[of env "file"] by auto
  have d: "aiCalls (postAnalyze env (Some file)) = []"
    using fileFilter_cases[of env "file"] accepted_upload_uncaught[of env "file"]
      rejected_upload_500[of env "file"] by auto
  show ?thesis
    using a b c d accepted_upload_uncaught[OF a]
    by (simp add: errorMiddleware_def failure_def)
qed

text \<open>The executable of 20 MiB is turned down for its type and answered with status 500.\<close>

lemma oversize_rejected_type:
  "fileSize < size_bytes bigExe \<and>
   postAnalyze exampleEnv (Some bigExe) =
     \<lparr>responses =
        [\<lparr>status = 500,
          body = JObject [(''success'', JVal (JBool False)),
                          (''error'',
                             JVal (JString (lit ''Only PDF and image files are allowed!'')))]\<rparr>],
      aiCalls = [], unlinked = []\<rparr>"
  by (simp add: server_defs example_defs lit_def)

end
